theory Spec2Isabelle
  imports Complex_Main "HOL-Library.Monad_Syntax"
begin

section \<open>Text: Python strings, whitespace and case\<close>

text \<open>
  A Python \<open>str\<close> is a sequence of code points. The model is \<^typ>\<open>string\<close>, each
  \<^typ>\<open>char\<close> standing for the code point of the same number, so it covers the
  strings whose code points are below 256. On that range the three library notions
  the scraper relies on are written out as Python defines them:
  \<^item> \<open>is_space\<close>: the characters \<open>\s\<close> matches in a \<open>str\<close> pattern, which are also
    the characters \<open>str.strip()\<close> removes (tab, LF, VT, FF, CR, the separators
    0x1C to 0x1F, space, NEL 0x85 and the no-break space 0xA0);
  \<^item> \<open>lower_char\<close>: \<open>str.lower()\<close> on one character (the ASCII capitals, and the
    Latin-1 capitals 0xC0 to 0xDE without the multiplication sign 0xD7);
  \<^item> \<open>strip\<close>: \<open>str.strip()\<close> with no argument.
\<close>

definition is_space :: "char \<Rightarrow> bool" where
  "is_space c \<longleftrightarrow>
     c \<in> {CHR 0x09, CHR 0x0A, CHR 0x0B, CHR 0x0C, CHR 0x0D,
          CHR 0x1C, CHR 0x1D, CHR 0x1E, CHR 0x1F, CHR 0x20, CHR 0x85, CHR 0xA0}"

definition lower_char :: "char \<Rightarrow> char" where
  "lower_char c =
     (let n = (of_char c :: nat)
      in if (65 \<le> n \<and> n \<le> 90) \<or> (192 \<le> n \<and> n \<le> 222 \<and> n \<noteq> 215)
         then char_of (n + 32) else c)"

definition lower :: "string \<Rightarrow> string" where
  "lower s = map lower_char s"

definition strip :: "string \<Rightarrow> string" where
  "strip s = rev (dropWhile is_space (rev (dropWhile is_space s)))"

text \<open>
  \<open>re.sub(r"\s+", " ", text)\<close>: scanning from the left, every maximal run of
  whitespace is replaced by one space; all other characters are kept.
\<close>

function sub_spaces :: "string \<Rightarrow> string" where
  "sub_spaces [] = []"
| "sub_spaces (c # cs) =
     (if is_space c then CHR '' '' # sub_spaces (dropWhile is_space cs)
      else c # sub_spaces cs)"
  by pat_completeness auto
termination
  by (relation "measure length") (auto simp: length_dropWhile_le less_Suc_eq_le)

text \<open>
  \<^verbatim>\<open>
  def _clean_text(text: str) -> str:
      return re.sub(r"\s+", " ", text).strip()
  \<close>
\<close>

definition clean_text :: "string \<Rightarrow> string" where
  "clean_text text = strip (sub_spaces text)"

text \<open>\<open>sep.join(parts)\<close>.\<close>

fun join :: "string \<Rightarrow> string list \<Rightarrow> string" where
  "join sep [] = []"
| "join sep [x] = x"
| "join sep (x # y # ys) = x @ sep @ join sep (y # ys)"

text \<open>\<open>needle in haystack\<close> on strings: \<open>needle\<close> occurs as a contiguous substring.\<close>

fun starts_with :: "string \<Rightarrow> string \<Rightarrow> bool" where
  "starts_with [] s = True"
| "starts_with (p # ps) [] = False"
| "starts_with (p # ps) (c # cs) = (p = c \<and> starts_with ps cs)"

fun contains :: "string \<Rightarrow> string \<Rightarrow> bool" where
  "contains needle [] = (needle = [])"
| "contains needle (c # cs) = (starts_with needle (c # cs) \<or> contains needle cs)"

section \<open>The parsed document\<close>

text \<open>
  \<open>BeautifulSoup(html, "html.parser")\<close> is the HTML-parsing library; its result is a
  tree. A \<open>Tag\<close> has a name and an ordered list of children; a \<open>NavigableString\<close> is a
  piece of text (also a CDATA section, which \<open>get_text\<close> reads the same way);
  \<open>Comment\<close> stands for the string nodes that \<open>get_text\<close> leaves out (comments,
  doctype, declarations, processing instructions). The parse itself is not part of the
  repository: \<open>parse_services\<close> below takes the parser as a parameter, a function from
  the document text to the top-level nodes of the tree.
\<close>

datatype node = Tag string "node list" | NavigableString string | Comment string

text \<open>\<open>isinstance(x, Tag)\<close> and \<open>x.name\<close> (which is \<open>None\<close> on a string node).\<close>

fun is_Tag :: "node \<Rightarrow> bool" where
  "is_Tag (Tag n kids) = True"
| "is_Tag (NavigableString s) = False"
| "is_Tag (Comment s) = False"

fun name :: "node \<Rightarrow> string option" where
  "name (Tag n kids) = Some n"
| "name (NavigableString s) = None"
| "name (Comment s) = None"

text \<open>
  \<open>node.get_text(sep, strip=True)\<close>: the text strings below the node in document order,
  each stripped, the empty ones dropped, joined by \<open>sep\<close>.
\<close>

fun strings :: "node \<Rightarrow> string list" where
  "strings (Tag n kids) = concat (map strings kids)"
| "strings (NavigableString s) = [s]"
| "strings (Comment s) = []"

definition get_text :: "string \<Rightarrow> node \<Rightarrow> string" where
  "get_text sep node = join sep (filter (\<lambda>s. s \<noteq> []) (map strip (strings node)))"

text \<open>
  An element of the tree knows where it stands: \<open>find_all\<close> returns each matching tag
  together with the siblings that follow it under the same parent, which is what
  \<open>find_next_siblings\<close> later reads. Document order is pre-order: a tag, then what is
  inside it, then what follows it.
\<close>

type_synonym element = "node \<times> node list"

fun find_all :: "string \<Rightarrow> node list \<Rightarrow> element list" where
  "find_all nm [] = []"
| "find_all nm (Tag n kids # sibs) =
     (if n = nm then [(Tag n kids, sibs)] else []) @ find_all nm kids @ find_all nm sibs"
| "find_all nm (NavigableString s # sibs) = find_all nm sibs"
| "find_all nm (Comment s # sibs) = find_all nm sibs"

text \<open>\<open>h2.find_next_siblings()\<close> with no filter: the following siblings that are tags.\<close>

definition find_next_siblings :: "element \<Rightarrow> node list" where
  "find_next_siblings el = filter is_Tag (snd el)"

section \<open>The heading pattern\<close>

text \<open>
  \<^verbatim>\<open>
  _SERVICE_RE = re.compile(r"^(?P<name>.+?)\s+Review\s+for\s+Lawyers\s*$", re.IGNORECASE)
  \<close>
  The part after the group is matched by \<open>match_rest\<close> against the whole remaining
  text. Each \<open>\s+\<close> is followed by a letter, so it can only succeed by taking the whole
  run of whitespace, of length at least one (\<open>spaces1\<close>); a letter of the pattern
  matches, ignoring case, the characters whose lower case it is (\<open>literal_ci\<close>, given
  the pattern's word in lower case); the final \<open>\s*$\<close> succeeds exactly when what is
  left is all whitespace (\<open>$\<close> is the end of the text, or the position of a last
  newline, itself whitespace).
\<close>

fun spaces1 :: "string \<Rightarrow> string option" where
  "spaces1 [] = None"
| "spaces1 (c # cs) = (if is_space c then Some (dropWhile is_space cs) else None)"

fun literal_ci :: "string \<Rightarrow> string \<Rightarrow> string option" where
  "literal_ci [] s = Some s"
| "literal_ci (l # ls) [] = None"
| "literal_ci (l # ls) (c # cs) = (if lower_char c = l then literal_ci ls cs else None)"

definition match_rest :: "string \<Rightarrow> bool" where
  "match_rest s =
     (case spaces1 s \<bind> literal_ci ''review'' \<bind> spaces1 \<bind> literal_ci ''for''
             \<bind> spaces1 \<bind> literal_ci ''lawyers'' of
        None \<Rightarrow> False
      | Some r \<Rightarrow> list_all is_space r)"

text \<open>
  The group \<open>(?P<name>.+?)\<close> is lazy: it takes one character that is not a newline,
  and then one more each time the rest of the pattern fails where it stands. So the
  match, if there is one, gives the shortest such prefix.
\<close>

fun lazy_name :: "string \<Rightarrow> string \<Rightarrow> string option" where
  "lazy_name acc [] = None"
| "lazy_name acc (c # cs) =
     (if c = CHR 0x0A then None
      else if match_rest cs then Some (acc @ [c])
      else lazy_name (acc @ [c]) cs)"

text \<open>\<open>_SERVICE_RE.match(text)\<close>, giving \<open>match.group("name")\<close> when it matches.\<close>

definition SERVICE_RE_match :: "string \<Rightarrow> string option" where
  "SERVICE_RE_match text = lazy_name [] text"

section \<open>Sections and their text\<close>

text \<open>
  \<^verbatim>\<open>
  def _extract_section_text(container_nodes: List[Tag]) -> str:
      lines: List[str] = []
      for node in container_nodes:
          if node.name in {"p", "li"}:
              t = _clean_text(node.get_text(" ", strip=True))
              if t:
                  lines.append(t)
      return "\n".join(lines).strip()
  \<close>
\<close>

fun extract_lines :: "node list \<Rightarrow> string list \<Rightarrow> string list" where
  "extract_lines [] lines = lines"
| "extract_lines (node # container_nodes) lines =
     (if name node \<in> {Some ''p'', Some ''li''} then
        (let t = clean_text (get_text '' '' node)
         in if t \<noteq> [] then extract_lines container_nodes (lines @ [t])
            else extract_lines container_nodes lines)
      else extract_lines container_nodes lines)"

definition extract_section_text :: "node list \<Rightarrow> string" where
  "extract_section_text container_nodes =
     strip (join [CHR 0x0A] (extract_lines container_nodes []))"

text \<open>
  The dictionary of \<open>_split_by_h3\<close> is a map from keys to lists of nodes.
  \<open>sections.setdefault(k, [])\<close> adds the key with an empty list when it is missing;
  \<open>sections.setdefault(k, []).append(node)\<close> then appends to the list of that key.
\<close>

type_synonym sections = "string \<rightharpoonup> node list"

definition setdefault :: "sections \<Rightarrow> string \<Rightarrow> sections" where
  "setdefault sections k = (case sections k of None \<Rightarrow> sections(k \<mapsto> []) | Some v \<Rightarrow> sections)"

definition setdefault_append :: "sections \<Rightarrow> string \<Rightarrow> node \<Rightarrow> sections" where
  "setdefault_append sections k node =
     sections(k \<mapsto> (case sections k of None \<Rightarrow> [] | Some v \<Rightarrow> v) @ [node])"

text \<open>\<open>sections.get(k, [])\<close>.\<close>

definition get :: "sections \<Rightarrow> string \<Rightarrow> node list" where
  "get sections k = (case sections k of None \<Rightarrow> [] | Some v \<Rightarrow> v)"

text \<open>The \<open>if\<close>/\<open>elif\<close> chain that turns the title of an \<open>h3\<close> into the current key.\<close>

definition h3_key :: "string \<Rightarrow> string" where
  "h3_key title =
     (if contains ''how'' title \<and> contains ''work'' title then ''how_it_works''
      else if contains ''practice'' title \<and> contains ''area'' title then ''practice_areas''
      else if contains ''pricing'' title \<or> contains ''price'' title then ''pricing''
      else ''section:'' @ title)"

text \<open>
  \<^verbatim>\<open>
  def _split_by_h3(nodes: List[Tag]) -> dict:
      sections: dict[str, List[Tag]] = {"summary": []}
      current_key = "summary"
      for node in nodes:
          if node.name == "h3":
              title = _clean_text(node.get_text(" ", strip=True)).lower()
              ... current_key = ...
              sections.setdefault(current_key, [])
              continue
          if node.name == "h2":
              break
          sections.setdefault(current_key, []).append(node)
      return sections
  \<close>
\<close>

fun split_loop :: "node list \<Rightarrow> sections \<Rightarrow> string \<Rightarrow> sections" where
  "split_loop [] sections current_key = sections"
| "split_loop (node # nodes) sections current_key =
     (if name node = Some ''h3'' then
        (let title = lower (clean_text (get_text '' '' node));
             current_key = h3_key title
         in split_loop nodes (setdefault sections current_key) current_key)
      else if name node = Some ''h2'' then sections
      else split_loop nodes (setdefault_append sections current_key node) current_key)"

definition split_by_h3 :: "node list \<Rightarrow> sections" where
  "split_by_h3 nodes = split_loop nodes [''summary'' \<mapsto> []] ''summary''"

section \<open>Records\<close>

record ServiceReview =
  service_name :: string
  heading :: string
  url :: string
  summary :: string
  how_it_works :: string
  practice_areas :: string
  pricing :: string

text \<open>
  The body of the loop of \<open>parse_services\<close> once the heading has matched and the nodes
  of the section are collected: split them, derive the four texts, build the record.
\<close>

definition build_review :: "string \<Rightarrow> string \<Rightarrow> string \<Rightarrow> node list \<Rightarrow> ServiceReview" where
  "build_review source_url heading_text name_text nodes =
     (let sections = split_by_h3 nodes
      in \<lparr> service_name = name_text,
           heading = heading_text,
           url = source_url,
           summary = extract_section_text (get sections ''summary''),
           how_it_works = extract_section_text (get sections ''how_it_works''),
           practice_areas = extract_section_text (get sections ''practice_areas''),
           pricing = extract_section_text (get sections ''pricing'') \<rparr>)"

text \<open>
  \<^verbatim>\<open>
  nodes: List[Tag] = []
  for sib in h2.find_next_siblings():
      if isinstance(sib, Tag) and sib.name == "h2":
          break
      if isinstance(sib, Tag):
          nodes.append(sib)
  \<close>
\<close>

fun collect_nodes :: "node list \<Rightarrow> node list \<Rightarrow> node list" where
  "collect_nodes [] nodes = nodes"
| "collect_nodes (sib # sibs) nodes =
     (if is_Tag sib \<and> name sib = Some ''h2'' then nodes
      else if is_Tag sib then collect_nodes sibs (nodes @ [sib])
      else collect_nodes sibs nodes)"

text \<open>The loop over \<open>soup.find_all("h2")\<close>, appending to \<open>services\<close>.\<close>

fun services_loop :: "string \<Rightarrow> element list \<Rightarrow> ServiceReview list \<Rightarrow> ServiceReview list" where
  "services_loop source_url [] services = services"
| "services_loop source_url (h2 # h2s) services =
     (let heading_text = clean_text (get_text '' '' (fst h2))
      in case SERVICE_RE_match heading_text of
           None \<Rightarrow> services_loop source_url h2s services
         | Some nm \<Rightarrow>
             services_loop source_url h2s
               (services @ [build_review source_url heading_text (strip nm)
                              (collect_nodes (find_next_siblings h2) [])]))"

definition parse_services :: "(string \<Rightarrow> node list) \<Rightarrow> string \<Rightarrow> string \<Rightarrow> ServiceReview list" where
  "parse_services parser source_url html =
     (let soup = parser html in services_loop source_url (find_all ''h2'' soup) [])"

section \<open>Fetching\<close>

text \<open>
  \<^verbatim>\<open>
  def fetch_html(url, *, headers=None, timeout=30, retries=3, backoff_seconds=1.0) -> str:
      ...
      last_exc: Optional[BaseException] = None
      for attempt in range(1, retries + 1):
          try:
              response = requests.get(url, headers=merged_headers, timeout=timeout)
              response.raise_for_status()
              return response.text
          except requests.RequestException as exc:
              last_exc = exc
              if attempt < retries:
                  time.sleep(backoff_seconds * attempt)
      raise FetchError(f"Failed to fetch {url} after {retries} attempts") from last_exc
  \<close>
  The network and the clock are the environment. \<open>transport n\<close> is what the \<open>try\<close>
  block of attempt \<open>n\<close> does: the text of the response, or a \<open>requests.RequestException\<close>
  (a transport failure, or the \<open>HTTPError\<close> that \<open>raise_for_status\<close> raises on a 4xx or
  5xx status), or any other exception, which the \<open>except\<close> clause does not catch. The
  URL, the merged headers and the timeout are the same at every attempt and are part
  of that environment. \<open>sleep d\<close> is what the call \<open>time.sleep(d)\<close> does: \<open>None\<close> when
  it waits and returns, or the exception that it raises; raised inside the \<open>except\<close>
  clause, that exception leaves \<open>fetch_html\<close>. What the function does to the outside
  is recorded as a trace of events: each call of \<open>requests.get\<close> with its attempt
  number, and each wait made, with its length. The length is the product of
  \<open>backoff_seconds\<close> and the attempt number, a finite number; the model computes it in
  the real numbers, which is the Python product for an \<open>int\<close> base and for a \<open>float\<close>
  base up to the rounding of the float product.
\<close>

datatype 'e attempt_result = Response string | RequestException 'e | OtherException 'e

datatype 'e raised = FetchError string "'e option" | Propagated 'e

datatype event = Get int | Sleep real

text \<open>\<open>str(n)\<close> of an integer, as the f-string formats \<open>retries\<close>.\<close>

function str_nat :: "nat \<Rightarrow> string" where
  "str_nat n = (if n < 10 then [char_of (48 + n)] else str_nat (n div 10) @ [char_of (48 + n mod 10)])"
  by pat_completeness auto
termination
  by (relation "measure id") auto

definition str_int :: "int \<Rightarrow> string" where
  "str_int i = (if i < 0 then ''-'' @ str_nat (nat (- i)) else str_nat (nat i))"

definition fetch_error_message :: "string \<Rightarrow> int \<Rightarrow> string" where
  "fetch_error_message u retries =
     ''Failed to fetch '' @ u @ '' after '' @ str_int retries @ '' attempts''"

text \<open>
  The loop over \<open>range(1, retries + 1)\<close>, with \<open>last_exc\<close> and the trace so far. A
  cause of \<open>None\<close> in \<open>FetchError\<close> is \<open>raise ... from None\<close>.
\<close>

fun attempt_loop ::
  "string \<Rightarrow> (int \<Rightarrow> 'e attempt_result) \<Rightarrow> (real \<Rightarrow> 'e option) \<Rightarrow> int \<Rightarrow> real \<Rightarrow> int list
     \<Rightarrow> 'e option \<Rightarrow> event list \<Rightarrow> ('e raised + string) \<times> event list" where
  "attempt_loop u transport sleep retries backoff_seconds [] last_exc trace =
     (Inl (FetchError (fetch_error_message u retries) last_exc), trace)"
| "attempt_loop u transport sleep retries backoff_seconds (attempt # rest) last_exc trace =
     (case transport attempt of
        Response text \<Rightarrow> (Inr text, trace @ [Get attempt])
      | RequestException exc \<Rightarrow>
          (if attempt < retries then
             (case sleep (backoff_seconds * of_int attempt) of
                Some err \<Rightarrow> (Inl (Propagated err), trace @ [Get attempt])
              | None \<Rightarrow>
                  attempt_loop u transport sleep retries backoff_seconds rest (Some exc)
                    (trace @ [Get attempt, Sleep (backoff_seconds * of_int attempt)]))
           else attempt_loop u transport sleep retries backoff_seconds rest (Some exc)
                  (trace @ [Get attempt]))
      | OtherException exc \<Rightarrow> (Inl (Propagated exc), trace @ [Get attempt]))"

definition fetch_html ::
  "string \<Rightarrow> (int \<Rightarrow> 'e attempt_result) \<Rightarrow> (real \<Rightarrow> 'e option) \<Rightarrow> int \<Rightarrow> real
     \<Rightarrow> ('e raised + string) \<times> event list" where
  "fetch_html u transport sleep retries backoff_seconds =
     attempt_loop u transport sleep retries backoff_seconds [1..retries] None []"

text \<open>
  The exceptions of the examples, and \<open>time.sleep\<close> as CPython checks its argument
  before it waits: the length is converted to a whole number of nanoseconds, rounded
  away from zero, which has to fit a signed 64-bit integer (\<open>OverflowError\<close> if it
  does not) and must not be negative (\<open>ValueError\<close> if it is). A length that passes
  both checks is waited for, and the call returns.
\<close>

datatype exn = ConnectionError int | ValueError | OverflowError

definition round_up :: "real \<Rightarrow> int" where
  "round_up x = (if 0 \<le> x then ceiling x else floor x)"

definition time_sleep :: "real \<Rightarrow> exn option" where
  "time_sleep secs =
     (let ns = round_up (secs * 10 ^ 9)
      in if ns < - (2 ^ 63) \<or> 2 ^ 63 \<le> ns then Some OverflowError
         else if ns < 0 then Some ValueError
         else None)"

section \<open>Specification-side notions\<close>

text \<open>
  The words of a text are its maximal runs of characters that are not whitespace, in
  order (what Python's \<open>text.split()\<close> returns). They are used to say what
  normalization keeps; \<open>rstrip\<close> is the right half of \<open>strip\<close>.
\<close>

function words :: "string \<Rightarrow> string list" where
  "words [] = []"
| "words (c # cs) =
     (if is_space c then words (dropWhile is_space cs)
      else (c # takeWhile (\<lambda>x. \<not> is_space x) cs) # words (dropWhile (\<lambda>x. \<not> is_space x) cs))"
  by pat_completeness auto
termination
  by (relation "measure length") (auto simp: length_dropWhile_le less_Suc_eq_le)

definition rstrip :: "string \<Rightarrow> string" where
  "rstrip s = rev (dropWhile is_space (rev s))"

text \<open>
  Names for expressions of the source: the normalized text of a heading found by
  \<open>find_all\<close>, the nodes collected for its section, the lower-cased title of an \<open>h3\<close>,
  and the record that the loop body appends for a heading when the pattern matches.
\<close>

definition heading_text :: "element \<Rightarrow> string" where
  "heading_text h2 = clean_text (get_text '' '' (fst h2))"

definition section_nodes :: "element \<Rightarrow> node list" where
  "section_nodes h2 = collect_nodes (find_next_siblings h2) []"

definition h3_title :: "node \<Rightarrow> string" where
  "h3_title node = lower (clean_text (get_text '' '' node))"

definition review_of :: "string \<Rightarrow> element \<Rightarrow> ServiceReview option" where
  "review_of source_url h2 =
     map_option (\<lambda>nm. build_review source_url (heading_text h2) (strip nm) (section_nodes h2))
       (SERVICE_RE_match (heading_text h2))"

text \<open>A title that none of the three patterns of \<open>_split_by_h3\<close> recognizes.\<close>

definition unrecognized :: "string \<Rightarrow> bool" where
  "unrecognized title \<longleftrightarrow>
     \<not> (contains ''how'' title \<and> contains ''work'' title)
     \<and> \<not> (contains ''practice'' title \<and> contains ''area'' title)
     \<and> \<not> (contains ''pricing'' title \<or> contains ''price'' title)"

text \<open>
  The line that one member of a bucket contributes to the text of \<open>_extract_section_text\<close>:
  none unless its own tag is \<open>p\<close> or \<open>li\<close> and its normalized text is not empty.
\<close>

definition node_lines :: "node \<Rightarrow> string list" where
  "node_lines node =
     (if (name node = Some ''p'' \<or> name node = Some ''li'') \<and> clean_text (get_text '' '' node) \<noteq> []
      then [clean_text (get_text '' '' node)] else [])"

text \<open>The attempts and the waits of a trace of \<open>fetch_html\<close>, in order.\<close>

fun gets :: "event list \<Rightarrow> int list" where
  "gets [] = []"
| "gets (Get n # es) = n # gets es"
| "gets (Sleep d # es) = gets es"

fun sleeps :: "event list \<Rightarrow> real list" where
  "sleeps [] = []"
| "sleeps (Get n # es) = sleeps es"
| "sleeps (Sleep d # es) = d # sleeps es"

text \<open>
  Two networks for the examples: one in which every attempt fails with a
  \<open>ConnectionError\<close>, and one in which the second attempt is answered.
\<close>

definition always_fails :: "int \<Rightarrow> exn attempt_result" where
  "always_fails n = RequestException (ConnectionError n)"

definition second_succeeds :: "int \<Rightarrow> exn attempt_result" where
  "second_succeeds n = (if n = 2 then Response ''page'' else RequestException (ConnectionError n))"

section \<open>Text normalization\<close>

lemma strip_rstrip: "strip s = rstrip (dropWhile is_space s)"
  by (simp add: strip_def rstrip_def)

lemma rstrip_Nil [simp]: "rstrip [] = []"
  by (simp add: rstrip_def)

lemma rstrip_Cons:
  "rstrip (c # t) = (if is_space c \<and> rstrip t = [] then [] else c # rstrip t)"
  by (auto simp: rstrip_def dropWhile_append dropWhile_eq_Nil_conv)

lemma words_dropWhile [simp]: "words (dropWhile is_space s) = words s"
  by (induction s) auto

lemma words_nonspace:
  "\<not> is_space c \<Longrightarrow>
   words (c # cs) =
     (case cs of [] \<Rightarrow> [[c]]
      | d # ds \<Rightarrow> if is_space d then [c] # words cs
                 else (c # hd (words cs)) # tl (words cs))"
  by (cases cs) auto

lemma words_nonempty: "w \<in> set (words s) \<Longrightarrow> w \<noteq> []"
  by (induction s rule: words.induct) (auto split: if_splits)

lemma join_Cons: "join sep (x # xs) = (if xs = [] then x else x @ sep @ join sep xs)"
  by (cases xs) auto

lemma join_words_Nil_iff: "join '' '' (words s) = [] \<longleftrightarrow> words s = []"
proof (cases "words s")
  case Nil
  then show ?thesis by simp
next
  case (Cons w ws)
  then have "w \<noteq> []" using words_nonempty [of w s] by simp
  with Cons show ?thesis by (simp add: join_Cons)
qed

lemma sub_spaces_hd: "s = [] \<or> \<not> is_space (hd s) \<Longrightarrow> dropWhile is_space (sub_spaces s) = sub_spaces s"
  by (cases s) auto

lemma dropWhile_hd: "dropWhile P xs = [] \<or> \<not> P (hd (dropWhile P xs))"
  by (metis hd_dropWhile)

lemma lstrip_sub_spaces: "dropWhile is_space (sub_spaces s) = sub_spaces (dropWhile is_space s)"
proof (cases s)
  case Nil
  then show ?thesis by simp
next
  case (Cons c cs)
  show ?thesis
  proof (cases "is_space c")
    case True
    have "dropWhile is_space (sub_spaces (dropWhile is_space cs)) = sub_spaces (dropWhile is_space cs)"
      by (rule sub_spaces_hd) (rule dropWhile_hd)
    with True Cons show ?thesis by (simp add: is_space_def)
  next
    case False
    with Cons show ?thesis by simp
  qed
qed

lemma rstrip_sub_spaces:
  "rstrip (sub_spaces s) =
     (if words s = [] then []
      else (if s \<noteq> [] \<and> is_space (hd s) then '' '' else []) @ join '' '' (words s))"
proof (induction s rule: sub_spaces.induct)
  case 1
  show ?case by simp
next
  case (2 c cs)
  show ?case
  proof (cases "is_space c")
    case True
    let ?d = "dropWhile is_space cs"
    have hd: "?d = [] \<or> \<not> is_space (hd ?d)" by (rule dropWhile_hd)
    have ih: "rstrip (sub_spaces ?d) = (if words ?d = [] then [] else join '' '' (words ?d))"
      using 2(1) [OF True] hd by auto
    have sp: "is_space CHR '' ''" by (simp add: is_space_def)
    show ?thesis using True ih sp join_words_Nil_iff [of ?d]
      by (simp add: rstrip_Cons)
  next
    case False
    have ih: "rstrip (sub_spaces cs) =
      (if words cs = [] then []
       else (if cs \<noteq> [] \<and> is_space (hd cs) then '' '' else []) @ join '' '' (words cs))"
      using 2(2) [OF False] .
    show ?thesis
    proof (cases cs)
      case Nil
      with False show ?thesis by (simp add: rstrip_Cons)
    next
      case (Cons d ds)
      show ?thesis
      proof (cases "is_space d")
        case True
        with False Cons ih show ?thesis
          by (simp add: rstrip_Cons words_nonspace join_Cons del: words.simps)
      next
        case nsp: False
        then have ne: "words cs \<noteq> []" using Cons by simp
        then obtain w ws where w: "words cs = w # ws" by (cases "words cs") auto
        from False Cons ih nsp w show ?thesis
          by (simp add: rstrip_Cons words_nonspace join_Cons del: words.simps)
      qed
    qed
  qed
qed

lemma clean_text_words: "clean_text s = join '' '' (words s)"
proof -
  let ?d = "dropWhile is_space s"
  have "clean_text s = rstrip (sub_spaces ?d)"
    by (simp add: clean_text_def strip_rstrip lstrip_sub_spaces)
  also have "\<dots> = (if words ?d = [] then [] else join '' '' (words ?d))"
    using dropWhile_hd [of is_space s] by (auto simp: rstrip_sub_spaces)
  also have "\<dots> = join '' '' (words s)"
    by simp
  finally show ?thesis .
qed

lemma filter_not_dropWhile: "filter (\<lambda>x. \<not> P x) (dropWhile P xs) = filter (\<lambda>x. \<not> P x) xs"
  by (induction xs) auto

lemma filter_takeWhile_dropWhile:
  "takeWhile P xs @ filter P (dropWhile P xs) = filter P xs"
  by (induction xs) auto

lemma concat_words: "concat (words s) = filter (\<lambda>c. \<not> is_space c) s"
proof (induction s rule: words.induct)
  case 1
  show ?case by simp
next
  case (2 c cs)
  show ?case
  proof (cases "is_space c")
    case True
    with 2 show ?thesis by (simp add: filter_not_dropWhile)
  next
    case False
    with 2 show ?thesis by (simp add: filter_takeWhile_dropWhile)
  qed
qed

lemma list_all_takeWhile: "list_all P (takeWhile P xs)"
  by (induction xs) auto

lemma words_no_space: "list_all (\<lambda>w. w \<noteq> [] \<and> list_all (\<lambda>c. \<not> is_space c) w) (words s)"
proof (induction s rule: words.induct)
  case 1
  show ?case by simp
next
  case (2 c cs)
  show ?case
  proof (cases "is_space c")
    case True
    with 2 show ?thesis by simp
  next
    case False
    with 2 show ?thesis by (simp add: list_all_takeWhile)
  qed
qed

text \<open>
  C9. Text normalization replaces every run of whitespace inside the text, newlines
  included, by one space and removes the whitespace at both ends: the result is the
  words of the text, in order, with a single space between neighbours, where the words
  are non-empty, free of whitespace and together hold exactly the characters of the
  text that are not whitespace. On the raw text of two spaces, \<open>foo\<close>, two newlines, a
  space, \<open>bar\<close> and two spaces the result is \<open>foo bar\<close>.
\<close>

theorem clean_text_collapses_and_trims:
  "clean_text ('' '' @ '' '' @ ''foo'' @ [CHR 0x0A, CHR 0x0A] @ '' bar  '') = ''foo bar''
   \<and> clean_text s = join '' '' (words s)
   \<and> list_all (\<lambda>w. w \<noteq> [] \<and> list_all (\<lambda>c. \<not> is_space c) w) (words s)
   \<and> concat (words s) = filter (\<lambda>c. \<not> is_space c) s"
proof (intro conjI)
  show "clean_text ('' '' @ '' '' @ ''foo'' @ [CHR 0x0A, CHR 0x0A] @ '' bar  '') = ''foo bar''"
    by (simp add: clean_text_def strip_def is_space_def)
  show "clean_text s = join '' '' (words s)"
    by (rule clean_text_words)
  show "list_all (\<lambda>w. w \<noteq> [] \<and> list_all (\<lambda>c. \<not> is_space c) w) (words s)"
    by (rule words_no_space)
  show "concat (words s) = filter (\<lambda>c. \<not> is_space c) s"
    by (rule concat_words)
qed

section \<open>The text of a bucket\<close>

lemma extract_lines_acc: "extract_lines nodes lines = lines @ concat (map node_lines nodes)"
  by (induction nodes arbitrary: lines) (auto simp: node_lines_def Let_def)

lemma extract_lines_node_lines: "extract_lines nodes [] = concat (map node_lines nodes)"
  by (simp add: extract_lines_acc)

lemma node_lines_other: "name node \<noteq> Some ''p'' \<Longrightarrow> name node \<noteq> Some ''li'' \<Longrightarrow> node_lines node = []"
  by (simp add: node_lines_def)

lemma concat_node_lines_filter:
  "concat (map node_lines (filter (\<lambda>n. name n = Some ''p'' \<or> name n = Some ''li'') nodes))
     = concat (map node_lines nodes)"
  by (induction nodes) (auto simp: node_lines_other)

lemma strip_Nil: "strip [] = []"
  by (simp add: strip_def)

lemma extract_section_text_none:
  "\<forall>n \<in> set nodes. name n \<noteq> Some ''p'' \<and> name n \<noteq> Some ''li'' \<Longrightarrow> extract_section_text nodes = []"
proof -
  assume a: "\<forall>n \<in> set nodes. name n \<noteq> Some ''p'' \<and> name n \<noteq> Some ''li''"
  then have c: "concat (map node_lines nodes) = []"
    by (induction nodes) (auto simp: node_lines_other)
  show ?thesis
    unfolding extract_section_text_def extract_lines_node_lines c by (simp add: strip_Nil)
qed

lemma lstrip_rstrip:
  "s = [] \<or> \<not> is_space (hd s) \<Longrightarrow> dropWhile is_space (rstrip s) = rstrip s"
  by (cases s) (auto simp: rstrip_Cons)

lemma rstrip_idem: "rstrip (rstrip s) = rstrip s"
  by (simp add: rstrip_def)

lemma strip_idem: "strip (strip s) = strip s"
  using lstrip_rstrip [OF dropWhile_hd [of is_space s]]
  by (simp add: strip_rstrip rstrip_idem)

lemma strip_clean_text: "strip (clean_text s) = clean_text s"
  by (simp add: clean_text_def strip_idem)

lemma node_lines_filter:
  "concat (map node_lines nodes)
     = map (\<lambda>n. clean_text (get_text '' '' n))
         (filter (\<lambda>n. (name n = Some ''p'' \<or> name n = Some ''li'')
                       \<and> clean_text (get_text '' '' n) \<noteq> []) nodes)"
  by (induction nodes) (simp_all add: node_lines_def)

lemma extract_section_text_single:
  assumes "nm = ''p'' \<or> nm = ''li''"
  shows "extract_section_text [Tag nm kids] = clean_text (get_text '' '' (Tag nm kids))"
proof (cases "clean_text (get_text '' '' (Tag nm kids)) = []")
  case True
  with assms show ?thesis
    by (auto simp: extract_section_text_def strip_Nil)
next
  case False
  with assms show ?thesis
    by (auto simp: extract_section_text_def Let_def strip_clean_text)
qed

text \<open>
  C10. The text of a bucket looks only at the tag of each direct member: its lines are
  the normalized texts of the direct members whose own tag is \<open>p\<close> or \<open>li\<close> (and whose
  normalized text is not empty), in order, whatever those members contain; joined by
  newlines and stripped, they are the text of the field. So a bucket of one \<open>p\<close> or one
  \<open>li\<close> gives the normalized text of that member, and the members with another tag
  can be left out without changing the text. A bucket whose only member is a tag other
  than \<open>p\<close> and \<open>li\<close>, such as a \<open>ul\<close> or \<open>ol\<close> around \<open>li\<close> children, gives the empty
  string: the text of the nested items is not extracted.
\<close>

theorem extract_section_text_direct_members_only:
  "extract_section_text container_nodes
     = strip (join [CHR 0x0A]
         (map (\<lambda>n. clean_text (get_text '' '' n))
            (filter (\<lambda>n. (name n = Some ''p'' \<or> name n = Some ''li'')
                          \<and> clean_text (get_text '' '' n) \<noteq> []) container_nodes)))
   \<and> extract_section_text [Tag ''p'' kids] = clean_text (get_text '' '' (Tag ''p'' kids))
   \<and> extract_section_text [Tag ''li'' kids] = clean_text (get_text '' '' (Tag ''li'' kids))
   \<and> extract_lines container_nodes [] = concat (map node_lines container_nodes)
   \<and> extract_section_text container_nodes
       = extract_section_text (filter (\<lambda>n. name n = Some ''p'' \<or> name n = Some ''li'') container_nodes)
   \<and> (nm \<noteq> ''p'' \<and> nm \<noteq> ''li'' \<longrightarrow> extract_section_text [Tag nm kids'] = [])"
proof (intro conjI impI)
  show "extract_section_text container_nodes
     = strip (join [CHR 0x0A]
         (map (\<lambda>n. clean_text (get_text '' '' n))
            (filter (\<lambda>n. (name n = Some ''p'' \<or> name n = Some ''li'')
                          \<and> clean_text (get_text '' '' n) \<noteq> []) container_nodes)))"
    unfolding extract_section_text_def extract_lines_node_lines node_lines_filter ..
  show "extract_section_text [Tag ''p'' kids] = clean_text (get_text '' '' (Tag ''p'' kids))"
    by (rule extract_section_text_single) simp
  show "extract_section_text [Tag ''li'' kids] = clean_text (get_text '' '' (Tag ''li'' kids))"
    by (rule extract_section_text_single) simp
  show "extract_lines container_nodes [] = concat (map node_lines container_nodes)"
    by (rule extract_lines_node_lines)
  show "extract_section_text container_nodes
       = extract_section_text (filter (\<lambda>n. name n = Some ''p'' \<or> name n = Some ''li'') container_nodes)"
    by (simp add: extract_section_text_def extract_lines_node_lines concat_node_lines_filter)
  show "extract_section_text [Tag nm kids'] = []" if "nm \<noteq> ''p'' \<and> nm \<noteq> ''li''"
    using that by (intro extract_section_text_none) simp
qed

theorem extract_section_text_direct_members_only_witness:
  "extract_section_text [Tag ''ul'' [Tag ''li'' [NavigableString ''One'']], Tag ''li'' [NavigableString ''Two''],
       Tag ''p'' [NavigableString '' Three  and'', Tag ''b'' [NavigableString ''four'']]]
     = ''Two'' @ [CHR 0x0A] @ ''Three and four''
   \<and> extract_section_text [Tag ''li'' [NavigableString ''Two'']] = ''Two''
   \<and> extract_lines [Tag ''ul'' [Tag ''li'' [NavigableString ''One'']], Tag ''li'' [NavigableString ''Two''],
       Tag ''p'' [NavigableString '' Three  and'', Tag ''b'' [NavigableString ''four'']]] []
     = [''Two'', ''Three and four'']
   \<and> ''ul'' \<noteq> ''p'' \<and> ''ul'' \<noteq> ''li''
   \<and> extract_section_text [Tag ''ul'' [Tag ''li'' [NavigableString ''One'']]] = []"
proof -
  have ne: "''ul'' \<noteq> ''p'' \<and> ''ul'' \<noteq> ''li''" by simp
  have c2: "clean_text (get_text '' '' (Tag ''li'' [NavigableString ''Two''])) = ''Two''"
    by (simp add: clean_text_def get_text_def strip_def is_space_def)
  have c3: "clean_text (get_text '' '' (Tag ''p'' [NavigableString '' Three  and'', Tag ''b'' [NavigableString ''four'']]))
      = ''Three and four''"
    by (simp add: clean_text_def get_text_def strip_def is_space_def)
  have nl: "node_lines (Tag ''li'' [NavigableString ''Two'']) = [''Two'']"
    by (simp add: node_lines_def c2)
  have np: "node_lines (Tag ''p'' [NavigableString '' Three  and'', Tag ''b'' [NavigableString ''four'']])
      = [''Three and four'']"
    by (simp add: node_lines_def c3)
  have nu: "node_lines (Tag ''ul'' [Tag ''li'' [NavigableString ''One'']]) = []"
    by (simp add: node_lines_def)
  have s: "strip (''Two'' @ [CHR 0x0A] @ ''Three and four'') = ''Two'' @ [CHR 0x0A] @ ''Three and four''"
    by (simp add: strip_def is_space_def)
  note t = extract_section_text_direct_members_only
    [of "[Tag ''ul'' [Tag ''li'' [NavigableString ''One'']], Tag ''li'' [NavigableString ''Two''],
       Tag ''p'' [NavigableString '' Three  and'', Tag ''b'' [NavigableString ''four'']]]"
        "[NavigableString ''Two'']" "''ul''" "[Tag ''li'' [NavigableString ''One'']]"]
  from t ne nl np nu c2 c3 s show ?thesis by simp
qed

section \<open>The scan of a section\<close>

lemma collect_nodes_eq:
  "collect_nodes sibs nodes = nodes @ filter is_Tag (takeWhile (\<lambda>n. name n \<noteq> Some ''h2'') sibs)"
proof (induction sibs arbitrary: nodes)
  case Nil
  show ?case by simp
next
  case (Cons sib sibs)
  show ?case by (cases sib) (simp_all add: Cons.IH)
qed

lemma section_nodes_no_h2: "n \<in> set (section_nodes h2) \<Longrightarrow> name n \<noteq> Some ''h2''"
  by (auto simp: section_nodes_def collect_nodes_eq dest: set_takeWhileD)

lemma section_nodes_is_Tag: "n \<in> set (section_nodes h2) \<Longrightarrow> is_Tag n"
  by (auto simp: section_nodes_def collect_nodes_eq)

lemma split_loop_plain_append:
  "\<forall>n \<in> set mid. name n \<noteq> Some ''h3'' \<and> name n \<noteq> Some ''h2'' \<Longrightarrow> sections k = Some v \<Longrightarrow>
   split_loop (mid @ rest) sections k = split_loop rest (sections(k \<mapsto> v @ mid)) k"
proof (induction mid arbitrary: sections v)
  case Nil
  then show ?case by (simp add: map_upd_triv)
next
  case (Cons n mid)
  have "split_loop ((n # mid) @ rest) sections k
          = split_loop (mid @ rest) (sections(k \<mapsto> v @ [n])) k"
    using Cons.prems by (simp add: setdefault_append_def)
  also have "\<dots> = split_loop rest ((sections(k \<mapsto> v @ [n]))(k \<mapsto> (v @ [n]) @ mid)) k"
    using Cons.prems by (intro Cons.IH) simp_all
  also have "\<dots> = split_loop rest (sections(k \<mapsto> v @ n # mid)) k"
    by simp
  finally show ?case .
qed

lemma split_loop_plain:
  "\<forall>n \<in> set nodes. name n \<noteq> Some ''h3'' \<and> name n \<noteq> Some ''h2'' \<Longrightarrow> sections k = Some v \<Longrightarrow>
   split_loop nodes sections k = sections(k \<mapsto> v @ nodes)"
  using split_loop_plain_append [of nodes sections k v "[]"] by simp

lemma setdefault_Some: "\<exists>v. setdefault sections k k = Some v"
  by (simp add: setdefault_def split: option.splits)

lemma setdefault_other: "key \<noteq> k \<Longrightarrow> setdefault sections k key = sections key"
  by (simp add: setdefault_def split: option.splits)

lemma setdefault_same: "sections k = Some v \<Longrightarrow> setdefault sections k = sections"
  by (simp add: setdefault_def)

text \<open>
  Two runs of the scan that start from dictionaries differing only in one bucket, where
  one holds a block of nodes more than the other, end in dictionaries that differ in
  the same way.
\<close>

lemma split_loop_insert:
  "T K = Some (A @ mid @ B) \<Longrightarrow> T' K = Some (A @ B) \<Longrightarrow> (\<forall>key. key \<noteq> K \<longrightarrow> T key = T' key) \<Longrightarrow>
   \<exists>B'. split_loop rest T c K = Some (A @ mid @ B') \<and> split_loop rest T' c K = Some (A @ B')
      \<and> (\<forall>key. key \<noteq> K \<longrightarrow> split_loop rest T c key = split_loop rest T' c key)"
proof (induction rest arbitrary: T T' c B)
  case Nil
  then show ?case by simp
next
  case (Cons n rest)
  show ?case
  proof (cases "name n = Some ''h3''")
    case True
    let ?c = "h3_key (lower (clean_text (get_text '' '' n)))"
    have 1: "setdefault T ?c K = Some (A @ mid @ B)"
      using Cons.prems(1) by (cases "?c = K") (simp_all add: setdefault_same setdefault_other)
    have 2: "setdefault T' ?c K = Some (A @ B)"
      using Cons.prems(2) by (cases "?c = K") (simp_all add: setdefault_same setdefault_other)
    have 3: "\<forall>key. key \<noteq> K \<longrightarrow> setdefault T ?c key = setdefault T' ?c key"
      using Cons.prems(3) by (auto simp: setdefault_def split: option.splits)
    from Cons.IH [OF 1 2 3, of ?c] True show ?thesis by (simp add: Let_def)
  next
    case nh3: False
    show ?thesis
    proof (cases "name n = Some ''h2''")
      case True
      with nh3 Cons.prems show ?thesis by auto
    next
      case False
      show ?thesis
      proof (cases "c = K")
        case True
        have 1: "setdefault_append T c n K = Some (A @ mid @ (B @ [n]))"
          using Cons.prems(1) True by (simp add: setdefault_append_def)
        have 2: "setdefault_append T' c n K = Some (A @ (B @ [n]))"
          using Cons.prems(2) True by (simp add: setdefault_append_def)
        have 3: "\<forall>key. key \<noteq> K \<longrightarrow> setdefault_append T c n key = setdefault_append T' c n key"
          using Cons.prems(3) True by (simp add: setdefault_append_def)
        from Cons.IH [OF 1 2 3, of c] nh3 False show ?thesis by simp
      next
        case cK: False
        have 1: "setdefault_append T c n K = Some (A @ mid @ B)"
          using Cons.prems(1) cK by (simp add: setdefault_append_def)
        have 2: "setdefault_append T' c n K = Some (A @ B)"
          using Cons.prems(2) cK by (simp add: setdefault_append_def)
        have 3: "\<forall>key. key \<noteq> K \<longrightarrow> setdefault_append T c n key = setdefault_append T' c n key"
          using Cons.prems(3) cK by (simp add: setdefault_append_def)
        from Cons.IH [OF 1 2 3, of c] nh3 False show ?thesis by simp
      qed
    qed
  qed
qed

text \<open>
  The nodes that follow an \<open>h3\<close> up to the next heading all go to the bucket of that
  \<open>h3\<close>, in one block, and to no other bucket.
\<close>

lemma split_loop_block:
  assumes hx: "name hx = Some ''h3''" "h3_key (h3_title hx) = K"
    and mid: "\<forall>n \<in> set mid. name n \<noteq> Some ''h3'' \<and> name n \<noteq> Some ''h2''"
    and pre: "\<forall>n \<in> set pre. name n \<noteq> Some ''h2''"
  shows "\<exists>A B. split_loop (pre @ hx # mid @ rest) S c K = Some (A @ mid @ B)
           \<and> split_loop (pre @ hx # rest) S c K = Some (A @ B)
           \<and> (\<forall>key. key \<noteq> K \<longrightarrow>
                 split_loop (pre @ hx # mid @ rest) S c key = split_loop (pre @ hx # rest) S c key)"
  using pre
proof (induction pre arbitrary: S c)
  case Nil
  obtain v where v: "setdefault S K K = Some v" using setdefault_Some by blast
  have a: "split_loop (hx # mid @ rest) S c = split_loop rest ((setdefault S K)(K \<mapsto> v @ mid)) K"
    using hx mid v by (simp add: h3_title_def split_loop_plain_append)
  have b: "split_loop (hx # rest) S c = split_loop rest (setdefault S K) K"
    using hx by (simp add: h3_title_def)
  have "\<exists>B'. split_loop rest ((setdefault S K)(K \<mapsto> v @ mid)) K K = Some (v @ mid @ B')
          \<and> split_loop rest (setdefault S K) K K = Some (v @ B')
          \<and> (\<forall>key. key \<noteq> K \<longrightarrow> split_loop rest ((setdefault S K)(K \<mapsto> v @ mid)) K key
                 = split_loop rest (setdefault S K) K key)"
    by (rule split_loop_insert [where B = "[]"]) (simp_all add: v)
  with a b show ?case by auto
next
  case (Cons n pre)
  then have n: "name n \<noteq> Some ''h2''" and p: "\<forall>n \<in> set pre. name n \<noteq> Some ''h2''" by simp_all
  show ?case
  proof (cases "name n = Some ''h3''")
    case True
    then show ?thesis using Cons.IH [OF p] by (simp add: Let_def)
  next
    case False
    then show ?thesis using n Cons.IH [OF p] by simp
  qed
qed

lemma get_split_block:
  assumes hx: "name hx = Some ''h3''" "h3_key (h3_title hx) = K"
    and mid: "\<forall>n \<in> set mid. name n \<noteq> Some ''h3'' \<and> name n \<noteq> Some ''h2''"
    and pre: "\<forall>n \<in> set pre. name n \<noteq> Some ''h2''"
  shows "\<exists>A B. get (split_by_h3 (pre @ hx # mid @ rest)) K = A @ mid @ B
           \<and> get (split_by_h3 (pre @ hx # rest)) K = A @ B
           \<and> (\<forall>key. key \<noteq> K \<longrightarrow>
                 get (split_by_h3 (pre @ hx # mid @ rest)) key = get (split_by_h3 (pre @ hx # rest)) key)"
proof -
  obtain A B where
    "split_loop (pre @ hx # mid @ rest) [''summary'' \<mapsto> []] ''summary'' K = Some (A @ mid @ B)"
    "split_loop (pre @ hx # rest) [''summary'' \<mapsto> []] ''summary'' K = Some (A @ B)"
    "\<forall>key. key \<noteq> K \<longrightarrow>
       split_loop (pre @ hx # mid @ rest) [''summary'' \<mapsto> []] ''summary'' key
         = split_loop (pre @ hx # rest) [''summary'' \<mapsto> []] ''summary'' key"
    using split_loop_block [OF hx mid pre, of rest "[''summary'' \<mapsto> []]" "''summary''"]
    by blast
  then have "get (split_by_h3 (pre @ hx # mid @ rest)) K = A @ mid @ B
           \<and> get (split_by_h3 (pre @ hx # rest)) K = A @ B
           \<and> (\<forall>key. key \<noteq> K \<longrightarrow>
                 get (split_by_h3 (pre @ hx # mid @ rest)) key = get (split_by_h3 (pre @ hx # rest)) key)"
    by (simp add: split_by_h3_def get_def)
  then show ?thesis by blast
qed

section \<open>Sections without sub-headings\<close>

text \<open>
  C4. The seven fields of a record are strings by the type of the record, and every
  matched heading gets a record with all seven. For a matched section whose collected
  nodes hold no sub-heading, \<open>how_it_works\<close>, \<open>practice_areas\<close> and \<open>pricing\<close> are
  the empty string and \<open>summary\<close> is the paragraph and list-item text of the collected
  nodes, which is the empty string when none of them is a paragraph or a list item.
\<close>

theorem no_sub_headings_only_summary:
  "(\<forall>n \<in> set (section_nodes h2). name n \<noteq> Some ''h3'') \<longrightarrow>
     build_review source_url ht nm (section_nodes h2)
       = \<lparr> service_name = nm, heading = ht, url = source_url,
           summary = extract_section_text (section_nodes h2),
           how_it_works = [], practice_areas = [], pricing = [] \<rparr>
     \<and> ((\<forall>n \<in> set (section_nodes h2). name n \<noteq> Some ''p'' \<and> name n \<noteq> Some ''li'') \<longrightarrow>
           summary (build_review source_url ht nm (section_nodes h2)) = [])"
proof (intro impI conjI)
  assume a: "\<forall>n \<in> set (section_nodes h2). name n \<noteq> Some ''h3''"
  have s: "split_by_h3 (section_nodes h2) = [''summary'' \<mapsto> section_nodes h2]"
    unfolding split_by_h3_def
    using a section_nodes_no_h2 [of _ h2]
    by (subst split_loop_plain [where v = "[]"]) auto
  have e: "extract_section_text [] = []"
    by (rule extract_section_text_none) simp
  show r: "build_review source_url ht nm (section_nodes h2)
       = \<lparr> service_name = nm, heading = ht, url = source_url,
           summary = extract_section_text (section_nodes h2),
           how_it_works = [], practice_areas = [], pricing = [] \<rparr>"
    by (simp add: build_review_def s get_def e)
  show "summary (build_review source_url ht nm (section_nodes h2)) = []"
    if "\<forall>n \<in> set (section_nodes h2). name n \<noteq> Some ''p'' \<and> name n \<noteq> Some ''li''"
    using that by (simp add: r extract_section_text_none)
qed

lemma section_nodes_example:
  "section_nodes (Tag ''h2'' [NavigableString ''Acme Review for Lawyers''],
       [Tag ''p'' [NavigableString ''Good service''], NavigableString '' '',
        Tag ''ul'' [Tag ''li'' [NavigableString ''Item'']], Tag ''h2'' [NavigableString ''Next'']])
     = [Tag ''p'' [NavigableString ''Good service''], Tag ''ul'' [Tag ''li'' [NavigableString ''Item'']]]"
  by (simp add: section_nodes_def find_next_siblings_def)

theorem no_sub_headings_only_summary_witness:
  "build_review ''u'' ''Acme Review for Lawyers'' ''Acme''
     [Tag ''p'' [NavigableString ''Good service''], Tag ''ul'' [Tag ''li'' [NavigableString ''Item'']]]
     = \<lparr> service_name = ''Acme'', heading = ''Acme Review for Lawyers'', url = ''u'',
         summary = ''Good service'', how_it_works = [], practice_areas = [], pricing = [] \<rparr>
   \<and> summary (build_review ''u'' ''Acme Review for Lawyers'' ''Acme'' [Tag ''ul'' [Tag ''li'' [NavigableString ''Item'']]]) = []"
proof -
  let ?h = "(Tag ''h2'' [NavigableString ''Acme Review for Lawyers''],
       [Tag ''p'' [NavigableString ''Good service''], NavigableString '' '',
        Tag ''ul'' [Tag ''li'' [NavigableString ''Item'']], Tag ''h2'' [NavigableString ''Next'']])"
  let ?g = "(Tag ''h2'' [NavigableString ''Acme Review for Lawyers''],
       [Tag ''ul'' [Tag ''li'' [NavigableString ''Item'']]])"
  have g: "section_nodes ?g = [Tag ''ul'' [Tag ''li'' [NavigableString ''Item'']]]"
    by (simp add: section_nodes_def find_next_siblings_def)
  have t: "extract_section_text
       [Tag ''p'' [NavigableString ''Good service''], Tag ''ul'' [Tag ''li'' [NavigableString ''Item'']]]
       = ''Good service''"
    by (simp add: extract_section_text_def clean_text_def get_text_def strip_def is_space_def)
  have h1: "\<forall>n \<in> set (section_nodes ?h). name n \<noteq> Some ''h3''"
    by (simp add: section_nodes_example)
  have g1: "\<forall>n \<in> set (section_nodes ?g). name n \<noteq> Some ''h3''"
    by (simp add: g)
  have g2: "\<forall>n \<in> set (section_nodes ?g). name n \<noteq> Some ''p'' \<and> name n \<noteq> Some ''li''"
    by (simp add: g)
  from no_sub_headings_only_summary [of ?h "''u''" "''Acme Review for Lawyers''" "''Acme''"] h1
  have "build_review ''u'' ''Acme Review for Lawyers'' ''Acme'' (section_nodes ?h)
     = \<lparr> service_name = ''Acme'', heading = ''Acme Review for Lawyers'', url = ''u'',
         summary = extract_section_text (section_nodes ?h),
         how_it_works = [], practice_areas = [], pricing = [] \<rparr>"
    by blast
  then have A: "build_review ''u'' ''Acme Review for Lawyers'' ''Acme''
     [Tag ''p'' [NavigableString ''Good service''], Tag ''ul'' [Tag ''li'' [NavigableString ''Item'']]]
     = \<lparr> service_name = ''Acme'', heading = ''Acme Review for Lawyers'', url = ''u'',
         summary = ''Good service'', how_it_works = [], practice_areas = [], pricing = [] \<rparr>"
    by (simp only: section_nodes_example t)
  from no_sub_headings_only_summary [of ?g "''u''" "''Acme Review for Lawyers''" "''Acme''"] g1 g2
  have "summary (build_review ''u'' ''Acme Review for Lawyers'' ''Acme'' (section_nodes ?g)) = []"
    by blast
  then have B: "summary (build_review ''u'' ''Acme Review for Lawyers'' ''Acme''
      [Tag ''ul'' [Tag ''li'' [NavigableString ''Item'']]]) = []"
    by (simp only: g)
  from A B show ?thesis by (rule conjI)
qed

section \<open>Field isolation\<close>

lemma extract_section_text_lines:
  "extract_section_text nodes = strip (join [CHR 0x0A] (concat (map node_lines nodes)))"
  by (simp add: extract_section_text_def extract_lines_node_lines)

lemma h3_title_how: "h3_title (Tag ''h3'' [NavigableString ''How It Works'']) = ''how it works''"
  by code_simp

lemma h3_title_pricing: "h3_title (Tag ''h3'' [NavigableString ''Pricing'']) = ''pricing''"
  by code_simp

lemma h3_key_how: "h3_key ''how it works'' = ''how_it_works''"
  by (simp add: h3_key_def)

lemma h3_key_pricing: "h3_key ''pricing'' = ''pricing''"
  by (simp add: h3_key_def)

text \<open>
  C3, as the code has it. In a matched section whose collected nodes hold the
  sub-heading "How It Works" and, later, the sub-heading "Pricing", with no
  sub-heading between the two, the
  nodes between them are one block of the \<open>how_it_works\<close> bucket: their lines are
  part of the \<open>how_it_works\<close> field, and the \<open>summary\<close>, \<open>pricing\<close> and
  \<open>practice_areas\<close> fields are what they would be if those nodes were not there.
\<close>

theorem field_isolation:
  assumes sec: "section_nodes h2 = pre @ hw # mid @ pr # post"
    and hw: "name hw = Some ''h3''" "h3_key (h3_title hw) = ''how_it_works''"
    and pr: "name pr = Some ''h3''" "h3_key (h3_title pr) = ''pricing''"
    and mid: "\<forall>n \<in> set mid. name n \<noteq> Some ''h3''"
  shows "\<exists>before after.
      how_it_works (build_review source_url ht nm (section_nodes h2))
        = strip (join [CHR 0x0A] (before @ concat (map node_lines mid) @ after))
    \<and> how_it_works (build_review source_url ht nm (pre @ hw # pr # post))
        = strip (join [CHR 0x0A] (before @ after))
    \<and> summary (build_review source_url ht nm (section_nodes h2))
        = summary (build_review source_url ht nm (pre @ hw # pr # post))
    \<and> pricing (build_review source_url ht nm (section_nodes h2))
        = pricing (build_review source_url ht nm (pre @ hw # pr # post))
    \<and> practice_areas (build_review source_url ht nm (section_nodes h2))
        = practice_areas (build_review source_url ht nm (pre @ hw # pr # post))"
proof -
  have no_h2: "\<forall>n \<in> set (pre @ hw # mid @ pr # post). name n \<noteq> Some ''h2''"
    using section_nodes_no_h2 [of _ h2] sec by metis
  have m: "\<forall>n \<in> set mid. name n \<noteq> Some ''h3'' \<and> name n \<noteq> Some ''h2''"
    using mid no_h2 by simp
  have p: "\<forall>n \<in> set pre. name n \<noteq> Some ''h2''"
    using no_h2 by simp
  obtain A B where
    a: "get (split_by_h3 (pre @ hw # mid @ pr # post)) ''how_it_works'' = A @ mid @ B"
    and b: "get (split_by_h3 (pre @ hw # pr # post)) ''how_it_works'' = A @ B"
    and c: "\<forall>key. key \<noteq> ''how_it_works'' \<longrightarrow>
              get (split_by_h3 (pre @ hw # mid @ pr # post)) key
                = get (split_by_h3 (pre @ hw # pr # post)) key"
    using get_split_block [OF hw m p, of "pr # post"] by blast
  have c1: "get (split_by_h3 (pre @ hw # mid @ pr # post)) ''summary''
              = get (split_by_h3 (pre @ hw # pr # post)) ''summary''"
    using c by simp
  have c2: "get (split_by_h3 (pre @ hw # mid @ pr # post)) ''pricing''
              = get (split_by_h3 (pre @ hw # pr # post)) ''pricing''"
    using c by simp
  have c3: "get (split_by_h3 (pre @ hw # mid @ pr # post)) ''practice_areas''
              = get (split_by_h3 (pre @ hw # pr # post)) ''practice_areas''"
    using c by simp
  have "how_it_works (build_review source_url ht nm (section_nodes h2))
        = strip (join [CHR 0x0A]
            (concat (map node_lines A) @ concat (map node_lines mid) @ concat (map node_lines B)))
    \<and> how_it_works (build_review source_url ht nm (pre @ hw # pr # post))
        = strip (join [CHR 0x0A] (concat (map node_lines A) @ concat (map node_lines B)))
    \<and> summary (build_review source_url ht nm (section_nodes h2))
        = summary (build_review source_url ht nm (pre @ hw # pr # post))
    \<and> pricing (build_review source_url ht nm (section_nodes h2))
        = pricing (build_review source_url ht nm (pre @ hw # pr # post))
    \<and> practice_areas (build_review source_url ht nm (section_nodes h2))
        = practice_areas (build_review source_url ht nm (pre @ hw # pr # post))"
    by (simp add: build_review_def Let_def sec a b c1 c2 c3 extract_section_text_lines)
  then show ?thesis by blast
qed

theorem field_isolation_witness:
  "\<exists>before after.
    how_it_works (build_review ''u'' ''Acme Review for Lawyers'' ''Acme''
      (section_nodes (Tag ''h2'' [NavigableString ''Acme Review for Lawyers''],
        [Tag ''p'' [NavigableString ''Good service''], Tag ''h3'' [NavigableString ''How It Works''],
         Tag ''p'' [NavigableString ''Step one''], Tag ''h3'' [NavigableString ''Pricing''],
         Tag ''p'' [NavigableString ''Free'']])))
      = strip (join [CHR 0x0A]
          (before @ concat (map node_lines [Tag ''p'' [NavigableString ''Step one'']]) @ after))
  \<and> how_it_works (build_review ''u'' ''Acme Review for Lawyers'' ''Acme''
        ([Tag ''p'' [NavigableString ''Good service'']] @ Tag ''h3'' [NavigableString ''How It Works'']
          # Tag ''h3'' [NavigableString ''Pricing''] # [Tag ''p'' [NavigableString ''Free'']]))
      = strip (join [CHR 0x0A] (before @ after))
  \<and>
    summary (build_review ''u'' ''Acme Review for Lawyers'' ''Acme''
      (section_nodes (Tag ''h2'' [NavigableString ''Acme Review for Lawyers''],
        [Tag ''p'' [NavigableString ''Good service''], Tag ''h3'' [NavigableString ''How It Works''],
         Tag ''p'' [NavigableString ''Step one''], Tag ''h3'' [NavigableString ''Pricing''],
         Tag ''p'' [NavigableString ''Free'']])))
      = summary (build_review ''u'' ''Acme Review for Lawyers'' ''Acme''
        ([Tag ''p'' [NavigableString ''Good service'']] @ Tag ''h3'' [NavigableString ''How It Works'']
          # Tag ''h3'' [NavigableString ''Pricing''] # [Tag ''p'' [NavigableString ''Free'']]))
  \<and>
    pricing (build_review ''u'' ''Acme Review for Lawyers'' ''Acme''
      (section_nodes (Tag ''h2'' [NavigableString ''Acme Review for Lawyers''],
        [Tag ''p'' [NavigableString ''Good service''], Tag ''h3'' [NavigableString ''How It Works''],
         Tag ''p'' [NavigableString ''Step one''], Tag ''h3'' [NavigableString ''Pricing''],
         Tag ''p'' [NavigableString ''Free'']])))
      = pricing (build_review ''u'' ''Acme Review for Lawyers'' ''Acme''
        ([Tag ''p'' [NavigableString ''Good service'']] @ Tag ''h3'' [NavigableString ''How It Works'']
          # Tag ''h3'' [NavigableString ''Pricing''] # [Tag ''p'' [NavigableString ''Free'']]))
  \<and>
    practice_areas (build_review ''u'' ''Acme Review for Lawyers'' ''Acme''
      (section_nodes (Tag ''h2'' [NavigableString ''Acme Review for Lawyers''],
        [Tag ''p'' [NavigableString ''Good service''], Tag ''h3'' [NavigableString ''How It Works''],
         Tag ''p'' [NavigableString ''Step one''], Tag ''h3'' [NavigableString ''Pricing''],
         Tag ''p'' [NavigableString ''Free'']])))
      = practice_areas (build_review ''u'' ''Acme Review for Lawyers'' ''Acme''
        ([Tag ''p'' [NavigableString ''Good service'']] @ Tag ''h3'' [NavigableString ''How It Works'']
          # Tag ''h3'' [NavigableString ''Pricing''] # [Tag ''p'' [NavigableString ''Free'']]))"
  by (rule field_isolation)
    (simp_all add: section_nodes_def find_next_siblings_def h3_title_how h3_title_pricing
       h3_key_how h3_key_pricing)

section \<open>Unrecognized sub-headings\<close>

lemma h3_key_unrecognized: "unrecognized title \<Longrightarrow> h3_key title = ''section:'' @ title"
  by (simp add: unrecognized_def h3_key_def)

lemma h3_key_recognized:
  "\<not> unrecognized title \<Longrightarrow> h3_key title \<in> {''how_it_works'', ''practice_areas'', ''pricing''}"
  by (auto simp: unrecognized_def h3_key_def)

lemma h3_key_section_inj:
  assumes "unrecognized t" "t' \<noteq> t"
  shows "h3_key t' \<noteq> h3_key t"
proof (cases "unrecognized t'")
  case True
  with assms show ?thesis by (simp add: h3_key_unrecognized)
next
  case False
  from h3_key_recognized [OF False] assms(1) show ?thesis
    by (auto simp: h3_key_unrecognized)
qed

lemma h3_title_FAQ: "h3_title (Tag ''h3'' [NavigableString ''FAQ'']) = ''faq''"
  by code_simp

lemma h3_title_Faq: "h3_title (Tag ''h3'' [NavigableString ''Faq'']) = ''faq''"
  by code_simp

lemma unrecognized_faq: "unrecognized ''faq''"
  by (simp add: unrecognized_def)

lemma split_loop_h3:
  "name n = Some ''h3'' \<Longrightarrow>
   split_loop (n # ns) S c = split_loop ns (setdefault S (h3_key (h3_title n))) (h3_key (h3_title n))"
  by (simp add: h3_title_def Let_def)

lemma split_loop_other:
  "name n \<noteq> Some ''h3'' \<Longrightarrow> name n \<noteq> Some ''h2'' \<Longrightarrow>
   split_loop (n # ns) S c = split_loop ns (setdefault_append S c n) c"
  by simp

text \<open>
  C7, as the code has it. A sub-heading whose lower-cased text matches none of the
  three patterns sends the nodes that follow it, up to the next heading, to the bucket
  \<open>section:\<close> followed by that text. This key is none of \<open>summary\<close>,
  \<open>how_it_works\<close>, \<open>practice_areas\<close> and \<open>pricing\<close>, and it differs from the key of
  every sub-heading whose lower-cased text is different; the scan is a total function.
  The record built from the section is the same as if those nodes were not there: they
  reach no field.
\<close>

theorem unrecognized_sub_heading_bucket:
  assumes hx: "name hx = Some ''h3''" "unrecognized (h3_title hx)"
    and mid: "\<forall>n \<in> set mid. name n \<noteq> Some ''h3'' \<and> name n \<noteq> Some ''h2''"
    and pre: "\<forall>n \<in> set pre. name n \<noteq> Some ''h2''"
  shows "h3_key (h3_title hx) = ''section:'' @ h3_title hx
    \<and> h3_key (h3_title hx) \<notin> {''summary'', ''how_it_works'', ''practice_areas'', ''pricing''}
    \<and> (\<forall>t'. t' \<noteq> h3_title hx \<longrightarrow> h3_key t' \<noteq> h3_key (h3_title hx))
    \<and> (\<exists>A B. get (split_by_h3 (pre @ hx # mid @ rest)) (h3_key (h3_title hx)) = A @ mid @ B)
    \<and> build_review source_url ht nm (pre @ hx # mid @ rest)
        = build_review source_url ht nm (pre @ hx # rest)"
proof -
  let ?K = "h3_key (h3_title hx)"
  have k: "?K = ''section:'' @ h3_title hx"
    using hx(2) by (rule h3_key_unrecognized)
  have named: "?K \<notin> {''summary'', ''how_it_works'', ''practice_areas'', ''pricing''}"
    by (simp add: k)
  have inj: "\<forall>t'. t' \<noteq> h3_title hx \<longrightarrow> h3_key t' \<noteq> ?K"
    using h3_key_section_inj [OF hx(2)] by blast
  obtain A B where
    a: "get (split_by_h3 (pre @ hx # mid @ rest)) ?K = A @ mid @ B"
    and c: "\<forall>key. key \<noteq> ?K \<longrightarrow>
              get (split_by_h3 (pre @ hx # mid @ rest)) key = get (split_by_h3 (pre @ hx # rest)) key"
    using get_split_block [OF hx(1) refl mid pre, of rest] by blast
  have c1: "get (split_by_h3 (pre @ hx # mid @ rest)) ''summary''
              = get (split_by_h3 (pre @ hx # rest)) ''summary''"
    using c named by (metis insertCI)
  have c2: "get (split_by_h3 (pre @ hx # mid @ rest)) ''how_it_works''
              = get (split_by_h3 (pre @ hx # rest)) ''how_it_works''"
    using c named by (metis insertCI)
  have c3: "get (split_by_h3 (pre @ hx # mid @ rest)) ''practice_areas''
              = get (split_by_h3 (pre @ hx # rest)) ''practice_areas''"
    using c named by (metis insertCI)
  have c4: "get (split_by_h3 (pre @ hx # mid @ rest)) ''pricing''
              = get (split_by_h3 (pre @ hx # rest)) ''pricing''"
    using c named by (metis insertCI)
  have b: "build_review source_url ht nm (pre @ hx # mid @ rest)
        = build_review source_url ht nm (pre @ hx # rest)"
    by (simp add: build_review_def Let_def c1 c2 c3 c4)
  from k named inj a b show ?thesis by blast
qed

theorem unrecognized_sub_heading_bucket_witness:
  "h3_key ''faq'' = ''section:faq''
   \<and> h3_key ''faq'' \<notin> {''summary'', ''how_it_works'', ''practice_areas'', ''pricing''}
   \<and> h3_key ''faqs'' \<noteq> h3_key ''faq''
   \<and> (\<exists>A B. get (split_by_h3 ([Tag ''p'' [NavigableString ''Intro'']] @ Tag ''h3'' [NavigableString ''FAQ'']
          # [Tag ''p'' [NavigableString ''Answer'']]
          @ [Tag ''h3'' [NavigableString ''Pricing''], Tag ''p'' [NavigableString ''Free'']]))
        (h3_key ''faq'') = A @ [Tag ''p'' [NavigableString ''Answer'']] @ B)
   \<and> build_review ''u'' ''Acme Review for Lawyers'' ''Acme''
        ([Tag ''p'' [NavigableString ''Intro'']] @ Tag ''h3'' [NavigableString ''FAQ'']
          # [Tag ''p'' [NavigableString ''Answer'']]
          @ [Tag ''h3'' [NavigableString ''Pricing''], Tag ''p'' [NavigableString ''Free'']])
       = build_review ''u'' ''Acme Review for Lawyers'' ''Acme''
        ([Tag ''p'' [NavigableString ''Intro'']] @ Tag ''h3'' [NavigableString ''FAQ'']
          # [Tag ''h3'' [NavigableString ''Pricing''], Tag ''p'' [NavigableString ''Free'']])"
proof -
  have h1: "name (Tag ''h3'' [NavigableString ''FAQ'']) = Some ''h3''"
    by simp
  have h2: "unrecognized (h3_title (Tag ''h3'' [NavigableString ''FAQ'']))"
    by (simp only: h3_title_FAQ unrecognized_faq)
  have h3: "\<forall>n \<in> set [Tag ''p'' [NavigableString ''Answer'']]. name n \<noteq> Some ''h3'' \<and> name n \<noteq> Some ''h2''"
    by simp
  have h4: "\<forall>n \<in> set [Tag ''p'' [NavigableString ''Intro'']]. name n \<noteq> Some ''h2''"
    by simp
  note t = unrecognized_sub_heading_bucket [OF h1 h2 h3 h4,
      of "[Tag ''h3'' [NavigableString ''Pricing''], Tag ''p'' [NavigableString ''Free'']]"
         "''u''" "''Acme Review for Lawyers''" "''Acme''", unfolded h3_title_FAQ]
  have d: "''faqs'' \<noteq> ''faq''" by simp
  have c1: "h3_key ''faq'' = ''section:faq''"
    using conjunct1 [OF t] by simp
  note t2 = conjunct2 [OF t]
  note c2 = conjunct1 [OF t2]
  note t3 = conjunct2 [OF t2]
  have c3: "h3_key ''faqs'' \<noteq> h3_key ''faq''"
    using mp [OF spec [OF conjunct1 [OF t3]] d] .
  note c45 = conjunct2 [OF t3]
  show ?thesis
    by (intro conjI) (rule c1, rule c2, rule c3, rule conjunct1 [OF c45], rule conjunct2 [OF c45])
qed

text \<open>
  C7 as it is written fails where it says that the bucket is distinct from the bucket of
  every other sub-heading: two different sub-headings whose lower-cased texts are the
  same, here "FAQ" and "Faq", share the bucket \<open>section:faq\<close>, which holds the nodes
  that follow either of them.
\<close>

theorem unrecognized_sub_heading_bucket_counterexample:
  "unrecognized (h3_title (Tag ''h3'' [NavigableString ''FAQ'']))
   \<and> unrecognized (h3_title (Tag ''h3'' [NavigableString ''Faq'']))
   \<and> Tag ''h3'' [NavigableString ''FAQ''] \<noteq> Tag ''h3'' [NavigableString ''Faq'']
   \<and> h3_key (h3_title (Tag ''h3'' [NavigableString ''FAQ'']))
       = h3_key (h3_title (Tag ''h3'' [NavigableString ''Faq'']))
   \<and> get (split_by_h3 [Tag ''h3'' [NavigableString ''FAQ''], Tag ''p'' [NavigableString ''One''],
                        Tag ''h3'' [NavigableString ''Faq''], Tag ''p'' [NavigableString ''Two'']])
         ''section:faq''
       = [Tag ''p'' [NavigableString ''One''], Tag ''p'' [NavigableString ''Two'']]"
proof -
  have k: "h3_key ''faq'' = ''section:faq''"
    using unrecognized_faq by (simp add: h3_key_unrecognized)
  have "get (split_by_h3 [Tag ''h3'' [NavigableString ''FAQ''], Tag ''p'' [NavigableString ''One''],
                        Tag ''h3'' [NavigableString ''Faq''], Tag ''p'' [NavigableString ''Two'']])
         ''section:faq''
       = [Tag ''p'' [NavigableString ''One''], Tag ''p'' [NavigableString ''Two'']]"
    by (simp add: split_by_h3_def split_loop_h3 split_loop_other h3_title_FAQ h3_title_Faq k
          setdefault_def setdefault_append_def get_def del: split_loop.simps(2))
  then show ?thesis
    by (simp add: h3_title_FAQ h3_title_Faq unrecognized_faq)
qed

section \<open>The loop over the headings\<close>

lemma services_loop_map_filter:
  "services_loop source_url h2s services = services @ List.map_filter (review_of source_url) h2s"
proof (induction h2s arbitrary: services)
  case Nil
  show ?case by (simp add: map_filter_simps)
next
  case (Cons h2 h2s)
  show ?case
  proof (cases "SERVICE_RE_match (heading_text h2)")
    case None
    then show ?thesis
      using Cons.IH [of services]
      by (simp add: map_filter_simps review_of_def heading_text_def)
  next
    case (Some nm)
    then show ?thesis
      using Cons.IH [of "services @ [build_review source_url (heading_text h2) (strip nm) (section_nodes h2)]"]
      by (simp add: map_filter_simps review_of_def heading_text_def section_nodes_def)
  qed
qed

lemma parse_services_map_filter:
  "parse_services parser source_url html
     = List.map_filter (review_of source_url) (find_all ''h2'' (parser html))"
  by (simp add: parse_services_def services_loop_map_filter)

lemma build_review_service_name: "service_name (build_review source_url ht nm nodes) = nm"
  by (simp add: build_review_def Let_def)

lemma build_review_heading: "heading (build_review source_url ht nm nodes) = ht"
  by (simp add: build_review_def Let_def)

lemma build_review_url: "url (build_review source_url ht nm nodes) = source_url"
  by (simp add: build_review_def Let_def)

lemma map_heading_map_filter:
  "map heading (List.map_filter (review_of source_url) h2s)
     = filter (\<lambda>t. SERVICE_RE_match t \<noteq> None) (map heading_text h2s)"
proof (induction h2s)
  case Nil
  show ?case by (simp add: map_filter_simps)
next
  case (Cons h2 h2s)
  then show ?case
    by (cases "SERVICE_RE_match (heading_text h2)")
      (simp_all add: map_filter_simps review_of_def build_review_heading)
qed

lemma map_service_name_map_filter:
  "map service_name (List.map_filter (review_of source_url) h2s)
     = List.map_filter (\<lambda>t. map_option strip (SERVICE_RE_match t)) (map heading_text h2s)"
proof (induction h2s)
  case Nil
  show ?case by (simp add: map_filter_simps)
next
  case (Cons h2 h2s)
  then show ?case
    by (cases "SERVICE_RE_match (heading_text h2)")
      (simp_all add: map_filter_simps review_of_def build_review_service_name)
qed

lemma match_A: "SERVICE_RE_match ''A Review for Lawyers'' = Some ''A''"
  by code_simp

lemma match_B: "SERVICE_RE_match ''B Review for Lawyers'' = Some ''B''"
  by code_simp

lemma match_C: "SERVICE_RE_match ''C Review for Lawyers'' = Some ''C''"
  by code_simp

lemma match_Unrelated: "SERVICE_RE_match ''Unrelated'' = None"
  by code_simp

lemma match_Acme: "SERVICE_RE_match ''Acme Review for Lawyers'' = Some ''Acme''"
  by code_simp

section \<open>Order of the records\<close>

text \<open>
  C2. \<open>parse_services\<close> returns, for the major headings of the document in document
  order, the record of each heading whose normalized text matches the pattern and
  nothing for the others: the headings of the records are the matching heading texts,
  in that order. For a document whose major headings read "A Review for Lawyers",
  "B Review for Lawyers", "Unrelated" and "C Review for Lawyers", in this order, the
  records are those of A, B and C, in this order.
\<close>

theorem parse_services_order:
  "parse_services parser source_url html
     = List.map_filter (review_of source_url) (find_all ''h2'' (parser html))
   \<and> map heading (parse_services parser source_url html)
       = filter (\<lambda>t. SERVICE_RE_match t \<noteq> None) (map heading_text (find_all ''h2'' (parser html)))
   \<and> (map heading_text (find_all ''h2'' (parser html))
         = [''A Review for Lawyers'', ''B Review for Lawyers'', ''Unrelated'', ''C Review for Lawyers'']
       \<longrightarrow> map service_name (parse_services parser source_url html) = [''A'', ''B'', ''C'']
         \<and> map heading (parse_services parser source_url html)
             = [''A Review for Lawyers'', ''B Review for Lawyers'', ''C Review for Lawyers''])"
proof (intro conjI impI)
  show "parse_services parser source_url html
     = List.map_filter (review_of source_url) (find_all ''h2'' (parser html))"
    by (rule parse_services_map_filter)
  show "map heading (parse_services parser source_url html)
       = filter (\<lambda>t. SERVICE_RE_match t \<noteq> None) (map heading_text (find_all ''h2'' (parser html)))"
    by (simp only: parse_services_map_filter map_heading_map_filter)
next
  assume a: "map heading_text (find_all ''h2'' (parser html))
         = [''A Review for Lawyers'', ''B Review for Lawyers'', ''Unrelated'', ''C Review for Lawyers'']"
  have s: "strip ''A'' = ''A''" "strip ''B'' = ''B''" "strip ''C'' = ''C''"
    by (simp_all add: strip_def is_space_def)
  show "map service_name (parse_services parser source_url html) = [''A'', ''B'', ''C'']"
    by (simp only: parse_services_map_filter map_service_name_map_filter a)
      (simp add: map_filter_simps match_A match_B match_C match_Unrelated s)
  show "map heading (parse_services parser source_url html)
             = [''A Review for Lawyers'', ''B Review for Lawyers'', ''C Review for Lawyers'']"
    by (simp only: parse_services_map_filter map_heading_map_filter a)
      (simp add: match_A match_B match_C match_Unrelated)
qed

theorem parse_services_order_witness:
  "map heading_text (find_all ''h2''
        [Tag ''h2'' [NavigableString ''A Review for Lawyers''], Tag ''p'' [NavigableString ''One''],
         Tag ''h2'' [NavigableString ''B Review for Lawyers''],
         Tag ''h2'' [NavigableString ''Unrelated''], Tag ''p'' [NavigableString ''Two''],
         Tag ''h2'' [NavigableString ''C Review for Lawyers'']])
     = [''A Review for Lawyers'', ''B Review for Lawyers'', ''Unrelated'', ''C Review for Lawyers'']
   \<and> map service_name (parse_services
        (\<lambda>html. [Tag ''h2'' [NavigableString ''A Review for Lawyers''], Tag ''p'' [NavigableString ''One''],
         Tag ''h2'' [NavigableString ''B Review for Lawyers''],
         Tag ''h2'' [NavigableString ''Unrelated''], Tag ''p'' [NavigableString ''Two''],
         Tag ''h2'' [NavigableString ''C Review for Lawyers'']])
        ''https://example.com/article'' ''html'') = [''A'', ''B'', ''C'']
   \<and> map heading (parse_services
        (\<lambda>html. [Tag ''h2'' [NavigableString ''A Review for Lawyers''], Tag ''p'' [NavigableString ''One''],
         Tag ''h2'' [NavigableString ''B Review for Lawyers''],
         Tag ''h2'' [NavigableString ''Unrelated''], Tag ''p'' [NavigableString ''Two''],
         Tag ''h2'' [NavigableString ''C Review for Lawyers'']])
        ''https://example.com/article'' ''html'')
       = [''A Review for Lawyers'', ''B Review for Lawyers'', ''C Review for Lawyers'']"
proof -
  have h: "map heading_text (find_all ''h2''
        [Tag ''h2'' [NavigableString ''A Review for Lawyers''], Tag ''p'' [NavigableString ''One''],
         Tag ''h2'' [NavigableString ''B Review for Lawyers''],
         Tag ''h2'' [NavigableString ''Unrelated''], Tag ''p'' [NavigableString ''Two''],
         Tag ''h2'' [NavigableString ''C Review for Lawyers'']])
     = [''A Review for Lawyers'', ''B Review for Lawyers'', ''Unrelated'', ''C Review for Lawyers'']"
    by (simp add: heading_text_def clean_text_def get_text_def strip_def is_space_def)
  note t = parse_services_order [of
        "\<lambda>html. [Tag ''h2'' [NavigableString ''A Review for Lawyers''], Tag ''p'' [NavigableString ''One''],
         Tag ''h2'' [NavigableString ''B Review for Lawyers''],
         Tag ''h2'' [NavigableString ''Unrelated''], Tag ''p'' [NavigableString ''Two''],
         Tag ''h2'' [NavigableString ''C Review for Lawyers'']]"
        "''https://example.com/article''" "''html''"]
  from mp [OF conjunct2 [OF conjunct2 [OF t]]] h show ?thesis by simp
qed

section \<open>The round trip\<close>

lemma build_review_round_trip:
  "build_review source_url ht nm
     [Tag ''p'' [NavigableString ''Good service''], Tag ''h3'' [NavigableString ''How It Works''],
      Tag ''p'' [NavigableString ''Step one'']]
   = \<lparr> service_name = nm, heading = ht, url = source_url, summary = ''Good service'',
       how_it_works = ''Step one'', practice_areas = [], pricing = [] \<rparr>"
proof -
  have s: "get (split_by_h3
       [Tag ''p'' [NavigableString ''Good service''], Tag ''h3'' [NavigableString ''How It Works''],
        Tag ''p'' [NavigableString ''Step one'']]) ''summary''
      = [Tag ''p'' [NavigableString ''Good service'']]"
    and h: "get (split_by_h3
       [Tag ''p'' [NavigableString ''Good service''], Tag ''h3'' [NavigableString ''How It Works''],
        Tag ''p'' [NavigableString ''Step one'']]) ''how_it_works''
      = [Tag ''p'' [NavigableString ''Step one'']]"
    and a: "get (split_by_h3
       [Tag ''p'' [NavigableString ''Good service''], Tag ''h3'' [NavigableString ''How It Works''],
        Tag ''p'' [NavigableString ''Step one'']]) ''practice_areas'' = []"
    and p: "get (split_by_h3
       [Tag ''p'' [NavigableString ''Good service''], Tag ''h3'' [NavigableString ''How It Works''],
        Tag ''p'' [NavigableString ''Step one'']]) ''pricing'' = []"
    by (simp_all add: split_by_h3_def split_loop_h3 split_loop_other h3_title_how h3_key_how
          setdefault_def setdefault_append_def get_def del: split_loop.simps(2))
  have t1: "extract_section_text [Tag ''p'' [NavigableString ''Good service'']] = ''Good service''"
    by (simp add: extract_section_text_def clean_text_def get_text_def strip_def is_space_def)
  have t2: "extract_section_text [Tag ''p'' [NavigableString ''Step one'']] = ''Step one''"
    by (simp add: extract_section_text_def clean_text_def get_text_def strip_def is_space_def)
  have t3: "extract_section_text [] = []"
    by (rule extract_section_text_none) simp
  show ?thesis
    by (simp add: build_review_def Let_def s h a p t1 t2 t3)
qed

lemma strip_Acme: "strip ''Acme'' = ''Acme''"
  by (simp add: strip_def is_space_def)

text \<open>
  C1. For a document that consists of one major heading, whose normalized text is
  "Acme Review for Lawyers", followed by a paragraph "Good service", a sub-heading
  "How It Works" and a paragraph "Step one", \<open>parse_services\<close> returns exactly one
  record: service name "Acme", that heading, the given URL, summary "Good service",
  how-it-works "Step one", and empty practice areas and pricing.
\<close>

theorem parse_services_round_trip:
  assumes doc: "parser html = Tag ''h2'' kids #
       [Tag ''p'' [NavigableString ''Good service''], Tag ''h3'' [NavigableString ''How It Works''],
        Tag ''p'' [NavigableString ''Step one'']]"
    and inner: "find_all ''h2'' kids = []"
    and htext: "clean_text (get_text '' '' (Tag ''h2'' kids)) = ''Acme Review for Lawyers''"
  shows "parse_services parser source_url html
     = [\<lparr> service_name = ''Acme'', heading = ''Acme Review for Lawyers'', url = source_url,
          summary = ''Good service'', how_it_works = ''Step one'',
          practice_areas = [], pricing = [] \<rparr>]"
proof -
  let ?body = "[Tag ''p'' [NavigableString ''Good service''], Tag ''h3'' [NavigableString ''How It Works''],
        Tag ''p'' [NavigableString ''Step one'']]"
  have f: "find_all ''h2'' (parser html) = [(Tag ''h2'' kids, ?body)]"
    by (simp add: doc inner)
  have n: "section_nodes (Tag ''h2'' kids, ?body) = ?body"
    by (simp add: section_nodes_def find_next_siblings_def)
  have ht: "heading_text (Tag ''h2'' kids, ?body) = ''Acme Review for Lawyers''"
    by (simp add: heading_text_def htext)
  have r: "review_of source_url (Tag ''h2'' kids, ?body)
     = Some \<lparr> service_name = ''Acme'', heading = ''Acme Review for Lawyers'', url = source_url,
          summary = ''Good service'', how_it_works = ''Step one'',
          practice_areas = [], pricing = [] \<rparr>"
    unfolding review_of_def ht n match_Acme
    by (simp add: strip_Acme build_review_round_trip)
  show ?thesis
    unfolding parse_services_map_filter f
    by (simp add: map_filter_simps r)
qed

theorem parse_services_round_trip_witness:
  "parse_services
     (\<lambda>html. [Tag ''h2'' [NavigableString ''Acme Review for Lawyers''],
              Tag ''p'' [NavigableString ''Good service''],
              Tag ''h3'' [NavigableString ''How It Works''],
              Tag ''p'' [NavigableString ''Step one'']])
     ''https://example.com/article'' ''html''
   = [\<lparr> service_name = ''Acme'', heading = ''Acme Review for Lawyers'',
        url = ''https://example.com/article'',
        summary = ''Good service'', how_it_works = ''Step one'',
        practice_areas = [], pricing = [] \<rparr>]"
proof (rule parse_services_round_trip [where kids = "[NavigableString ''Acme Review for Lawyers'']"])
  show "(\<lambda>html. [Tag ''h2'' [NavigableString ''Acme Review for Lawyers''],
              Tag ''p'' [NavigableString ''Good service''],
              Tag ''h3'' [NavigableString ''How It Works''],
              Tag ''p'' [NavigableString ''Step one'']]) ''html''
      = Tag ''h2'' [NavigableString ''Acme Review for Lawyers''] #
          [Tag ''p'' [NavigableString ''Good service''], Tag ''h3'' [NavigableString ''How It Works''],
           Tag ''p'' [NavigableString ''Step one'']]"
    by simp
  show "find_all ''h2'' [NavigableString ''Acme Review for Lawyers''] = []"
    by simp
  show "clean_text (get_text '' '' (Tag ''h2'' [NavigableString ''Acme Review for Lawyers'']))
      = ''Acme Review for Lawyers''"
    by (simp add: clean_text_def get_text_def strip_def is_space_def)
qed

section \<open>A sub-heading between two sub-headings\<close>

lemma h3_title_practice:
  "h3_title (Tag ''h3'' [NavigableString ''Practice Areas'']) = ''practice areas''"
  by code_simp

lemma h3_key_practice: "h3_key ''practice areas'' = ''practice_areas''"
  by (simp add: h3_key_def)

lemma split_three_sub_headings:
  "get (split_by_h3
     [Tag ''h3'' [NavigableString ''How It Works''], Tag ''p'' [NavigableString ''Step one''],
      Tag ''h3'' [NavigableString ''Practice Areas''], Tag ''p'' [NavigableString ''Family law''],
      Tag ''h3'' [NavigableString ''Pricing''], Tag ''p'' [NavigableString ''Free'']]) ''summary''
      = []"
  "get (split_by_h3
     [Tag ''h3'' [NavigableString ''How It Works''], Tag ''p'' [NavigableString ''Step one''],
      Tag ''h3'' [NavigableString ''Practice Areas''], Tag ''p'' [NavigableString ''Family law''],
      Tag ''h3'' [NavigableString ''Pricing''], Tag ''p'' [NavigableString ''Free'']]) ''how_it_works''
      = [Tag ''p'' [NavigableString ''Step one'']]"
  "get (split_by_h3
     [Tag ''h3'' [NavigableString ''How It Works''], Tag ''p'' [NavigableString ''Step one''],
      Tag ''h3'' [NavigableString ''Practice Areas''], Tag ''p'' [NavigableString ''Family law''],
      Tag ''h3'' [NavigableString ''Pricing''], Tag ''p'' [NavigableString ''Free'']]) ''practice_areas''
      = [Tag ''p'' [NavigableString ''Family law'']]"
  "get (split_by_h3
     [Tag ''h3'' [NavigableString ''How It Works''], Tag ''p'' [NavigableString ''Step one''],
      Tag ''h3'' [NavigableString ''Practice Areas''], Tag ''p'' [NavigableString ''Family law''],
      Tag ''h3'' [NavigableString ''Pricing''], Tag ''p'' [NavigableString ''Free'']]) ''pricing''
      = [Tag ''p'' [NavigableString ''Free'']]"
  by (simp_all add: split_by_h3_def split_loop_h3 split_loop_other
        h3_title_how h3_key_how h3_title_practice h3_key_practice h3_title_pricing h3_key_pricing
        setdefault_def setdefault_append_def get_def del: split_loop.simps(2))

text \<open>
  C3 as it is written fails when another sub-heading stands between "How It Works" and
  "Pricing": in the section below, the paragraph "Family law" comes after the
  sub-heading "How It Works" and before the sub-heading "Pricing", and its text is in
  \<open>practice_areas\<close>, not in \<open>how_it_works\<close>.
\<close>

theorem field_isolation_counterexample:
  "build_review ''https://example.com/article'' ''Acme Review for Lawyers'' ''Acme''
     [Tag ''h3'' [NavigableString ''How It Works''], Tag ''p'' [NavigableString ''Step one''],
      Tag ''h3'' [NavigableString ''Practice Areas''], Tag ''p'' [NavigableString ''Family law''],
      Tag ''h3'' [NavigableString ''Pricing''], Tag ''p'' [NavigableString ''Free'']]
   = \<lparr> service_name = ''Acme'', heading = ''Acme Review for Lawyers'',
       url = ''https://example.com/article'', summary = [],
       how_it_works = ''Step one'', practice_areas = ''Family law'', pricing = ''Free'' \<rparr>"
proof -
  have t1: "extract_section_text [Tag ''p'' [NavigableString ''Step one'']] = ''Step one''"
    and t2: "extract_section_text [Tag ''p'' [NavigableString ''Family law'']] = ''Family law''"
    and t3: "extract_section_text [Tag ''p'' [NavigableString ''Free'']] = ''Free''"
    by (simp_all add: extract_section_text_def clean_text_def get_text_def strip_def is_space_def)
  have t0: "extract_section_text [] = []"
    by (rule extract_section_text_none) simp
  show ?thesis
    by (simp add: build_review_def Let_def split_three_sub_headings t0 t1 t2 t3)
qed

section \<open>The retry loop\<close>

lemma gets_append: "gets (es @ fs) = gets es @ gets fs"
  by (induction es rule: gets.induct) simp_all

lemma sleeps_append: "sleeps (es @ fs) = sleeps es @ sleeps fs"
  by (induction es rule: sleeps.induct) simp_all

text \<open>What the failed attempts add to the trace, when every wait is made.\<close>

lemma attempt_loop_all_fail:
  "\<forall>a \<in> set as. transport a = RequestException (exc a) \<Longrightarrow>
   \<forall>a \<in> set as. a < retries \<longrightarrow> sleep (b * of_int a) = None \<Longrightarrow>
   attempt_loop u transport sleep retries b as last_exc tr
     = (Inl (FetchError (fetch_error_message u retries)
               (if as = [] then last_exc else Some (exc (last as)))),
        tr @ concat (map (\<lambda>a. Get a # (if a < retries then [Sleep (b * of_int a)] else [])) as))"
proof (induction as arbitrary: last_exc tr)
  case Nil
  show ?case by simp
next
  case (Cons a as)
  then have a: "transport a = RequestException (exc a)"
    and r: "\<forall>a \<in> set as. transport a = RequestException (exc a)"
    and n: "a < retries \<longrightarrow> sleep (b * of_int a) = None"
    and p: "\<forall>a \<in> set as. a < retries \<longrightarrow> sleep (b * of_int a) = None"
    by simp_all
  show ?case
    using n by (simp add: a Cons.IH [OF r p])
qed

lemma attempt_loop_stop:
  assumes "\<forall>a \<in> set as. transport a = RequestException (exc a)"
    and "\<forall>e. transport m \<noteq> RequestException e"
    and "\<forall>a \<in> set as. a < retries \<longrightarrow> sleep (b * of_int a) = None"
  shows "attempt_loop u transport sleep retries b (as @ m # rest) last_exc tr
     = ((case transport m of Response body \<Rightarrow> Inr body | OtherException e \<Rightarrow> Inl (Propagated e)
          | RequestException e \<Rightarrow> Inl (Propagated e)),
        tr @ concat (map (\<lambda>a. Get a # (if a < retries then [Sleep (b * of_int a)] else [])) as)
           @ [Get m])"
  using assms
proof (induction as arbitrary: last_exc tr)
  case Nil
  then show ?case by (cases "transport m") simp_all
next
  case (Cons a as)
  then have a: "transport a = RequestException (exc a)"
    and r: "\<forall>a \<in> set as. transport a = RequestException (exc a)"
    and n: "a < retries \<longrightarrow> sleep (b * of_int a) = None"
    and p: "\<forall>a \<in> set as. a < retries \<longrightarrow> sleep (b * of_int a) = None"
    by simp_all
  show ?case
    using n by (simp add: a Cons.IH [OF r Cons.prems(2) p])
qed

text \<open>A wait that raises ends the call: the attempts that remain are not made.\<close>

lemma attempt_loop_sleep_raises:
  assumes "transport a = RequestException e" and "a < retries" and "sleep (b * of_int a) = Some err"
  shows "attempt_loop u transport sleep retries b (a # rest) last_exc tr
     = (Inl (Propagated err), tr @ [Get a])"
  using assms by simp

lemma waits_made:
  "\<forall>n. 1 \<le> n \<and> n < m \<longrightarrow> sleep (b * of_int n) = None \<Longrightarrow>
   \<forall>a \<in> set [1..m - 1]. a < retries \<longrightarrow> sleep (b * of_int a) = None"
  by simp

lemma steps_before:
  "m \<le> retries \<Longrightarrow>
   map (\<lambda>a. Get a # (if a < retries then [Sleep (b * of_int a)] else [])) [1..m - 1]
     = map (\<lambda>n. [Get n, Sleep (b * of_int n)]) [1..m - 1]"
  by (rule map_cong) auto

lemma gets_steps: "gets (concat (map (\<lambda>n. [Get n, Sleep (f n)]) ns)) = ns"
  by (induction ns) simp_all

lemma sleeps_steps: "sleeps (concat (map (\<lambda>n. [Get n, Sleep (f n)]) ns)) = map f ns"
  by (induction ns) simp_all

lemma gets_attempts:
  "gets (concat (map (\<lambda>a. Get a # (if P a then [Sleep (f a)] else [])) as)) = as"
  by (induction as) simp_all

lemma last_upto: "i \<le> j \<Longrightarrow> last [i..j] = j"
  using upto_rec2 [of i j] by simp

text \<open>
  The result and the trace of a call in which every attempt fails with a
  \<open>RequestException\<close> and every wait is made.
\<close>

lemma fetch_html_all_fail:
  assumes all: "\<forall>n. 1 \<le> n \<and> n \<le> retries \<longrightarrow> transport n = RequestException (exc n)"
    and waits: "\<forall>n. 1 \<le> n \<and> n < retries \<longrightarrow> sleep (b * of_int n) = None"
  shows "fetch_html u transport sleep retries b
     = (Inl (FetchError (fetch_error_message u retries)
               (if 1 \<le> retries then Some (exc retries) else None)),
        concat (map (\<lambda>a. Get a # (if a < retries then [Sleep (b * of_int a)] else [])) [1..retries]))"
proof -
  have a: "\<forall>a \<in> set [1..retries]. transport a = RequestException (exc a)"
    using all by simp
  have w: "\<forall>a \<in> set [1..retries]. a < retries \<longrightarrow> sleep (b * of_int a) = None"
    using waits by simp
  show ?thesis
    unfolding fetch_html_def attempt_loop_all_fail [OF a w]
    by (simp add: last_upto)
qed

text \<open>
  The result and the trace of a call whose attempt \<open>m\<close> does not fail with a
  \<open>RequestException\<close>, after the attempts before it failed that way and the waits
  between them were made.
\<close>

lemma fetch_html_stop:
  assumes m: "1 \<le> m" "m \<le> retries"
    and before: "\<forall>n. 1 \<le> n \<and> n < m \<longrightarrow> transport n = RequestException (exc n)"
    and ne: "\<forall>e. transport m \<noteq> RequestException e"
    and waits: "\<forall>n. 1 \<le> n \<and> n < m \<longrightarrow> sleep (b * of_int n) = None"
  shows "fetch_html u transport sleep retries b
     = ((case transport m of Response body \<Rightarrow> Inr body | OtherException e \<Rightarrow> Inl (Propagated e)
          | RequestException e \<Rightarrow> Inl (Propagated e)),
        concat (map (\<lambda>n. [Get n, Sleep (b * of_int n)]) [1..m - 1]) @ [Get m])"
proof -
  have bef: "\<forall>a \<in> set [1..m - 1]. transport a = RequestException (exc a)"
    using before by auto
  have split: "[1..retries] = [1..m - 1] @ m # [m + 1..retries]"
    using m by (rule upto_split3)
  show ?thesis
    unfolding fetch_html_def split attempt_loop_stop [OF bef ne waits_made [OF waits]]
      steps_before [OF m(2)]
    by simp
qed

text \<open>
  The trace of a call whose last attempt is attempt \<open>m\<close>: the attempts before it failed
  with a \<open>RequestException\<close>, the waits between them were made, and either \<open>m\<close> is the
  last attempt allowed, or attempt \<open>m\<close> did not raise a \<open>RequestException\<close>.
\<close>

lemma fetch_html_trace:
  assumes m: "1 \<le> m" "m \<le> retries"
    and before: "\<forall>n. 1 \<le> n \<and> n < m \<longrightarrow> transport n = RequestException (exc n)"
    and stop: "m < retries \<longrightarrow> (\<forall>e. transport m \<noteq> RequestException e)"
    and waits: "\<forall>n. 1 \<le> n \<and> n < m \<longrightarrow> sleep (b * of_int n) = None"
  shows "snd (fetch_html u transport sleep retries b)
     = concat (map (\<lambda>n. [Get n, Sleep (b * of_int n)]) [1..m - 1]) @ [Get m]"
proof (cases "\<exists>e. transport m = RequestException e")
  case True
  then obtain e where e: "transport m = RequestException e" by blast
  with stop m have mr: "m = retries" by auto
  let ?exc = "\<lambda>n. if n = m then e else exc n"
  have all: "\<forall>n. 1 \<le> n \<and> n \<le> retries \<longrightarrow> transport n = RequestException (?exc n)"
    using before e mr by auto
  have w: "\<forall>n. 1 \<le> n \<and> n < retries \<longrightarrow> sleep (b * of_int n) = None"
    using waits mr by simp
  have split: "[1..retries] = [1..m - 1] @ [m]"
    using m mr upto_rec2 [of 1 retries] by simp
  have "snd (fetch_html u transport sleep retries b)
     = concat (map (\<lambda>a. Get a # (if a < retries then [Sleep (b * of_int a)] else [])) [1..retries])"
    unfolding fetch_html_all_fail [OF all w] by simp
  also have "\<dots> = concat (map (\<lambda>a. Get a # (if a < retries then [Sleep (b * of_int a)] else [])) [1..m - 1])
       @ [Get m]"
    unfolding split using mr by simp
  finally show ?thesis
    unfolding steps_before [OF m(2)] .
next
  case False
  then have ne: "\<forall>e. transport m \<noteq> RequestException e" by blast
  show ?thesis
    unfolding fetch_html_stop [OF m before ne waits] by simp
qed

text \<open>What \<open>time.sleep\<close> does with a length, by its sign and size.\<close>

lemma round_up_nonneg:
  "0 \<le> x \<Longrightarrow> x \<le> of_int k \<Longrightarrow> 0 \<le> round_up x \<and> round_up x \<le> k"
  by (simp add: round_up_def ceiling_le_iff le_ceiling_iff)

lemma round_up_neg:
  "x < 0 \<Longrightarrow> of_int k \<le> x \<Longrightarrow> round_up x < 0 \<and> k \<le> round_up x"
  by (simp add: round_up_def floor_less_iff le_floor_iff)

lemma round_up_large:
  "0 \<le> x \<Longrightarrow> of_int k \<le> x \<Longrightarrow> k \<le> round_up x"
  by (simp add: round_up_def le_ceiling_iff)

lemma time_sleep_accepts:
  assumes "0 \<le> secs" and "secs \<le> 9 * 10 ^ 9"
  shows "time_sleep secs = None"
proof -
  have "0 \<le> secs * 10 ^ 9" and "secs * 10 ^ 9 \<le> of_int (9 * 10 ^ 18)"
    using assms by simp_all
  then have "0 \<le> round_up (secs * 10 ^ 9) \<and> round_up (secs * 10 ^ 9) \<le> 9 * 10 ^ 18"
    by (rule round_up_nonneg)
  then show ?thesis
    unfolding time_sleep_def Let_def by simp
qed

lemma time_sleep_negative:
  assumes "secs < 0" and "- (9 * 10 ^ 9) \<le> secs"
  shows "time_sleep secs = Some ValueError"
proof -
  have "secs * 10 ^ 9 < 0" and "of_int (- (9 * 10 ^ 18)) \<le> secs * 10 ^ 9"
    using assms by (simp_all add: mult_less_0_iff)
  then have "round_up (secs * 10 ^ 9) < 0 \<and> - (9 * 10 ^ 18) \<le> round_up (secs * 10 ^ 9)"
    by (rule round_up_neg)
  then show ?thesis
    unfolding time_sleep_def Let_def by simp
qed

lemma time_sleep_too_long:
  assumes "10 ^ 10 \<le> secs"
  shows "time_sleep secs = Some OverflowError"
proof -
  have "0 \<le> secs * 10 ^ 9" and "of_int (10 ^ 19) \<le> secs * 10 ^ 9"
    using assms by simp_all
  then have "10 ^ 19 \<le> round_up (secs * 10 ^ 9)"
    by (rule round_up_large)
  then show ?thesis
    unfolding time_sleep_def Let_def by simp
qed

text \<open>
  With a negative base, or with one so large that the first wait does not fit the
  clock, \<open>time.sleep\<close> raises after the first failed attempt, and the attempts that
  remain are not made.
\<close>

lemma fetch_html_first_wait_raises:
  assumes "1 < retries" and "transport 1 = RequestException e" and "sleep b = Some err"
  shows "fetch_html u transport sleep retries b = (Inl (Propagated err), [Get 1])"
proof -
  have "[1..retries] = 1 # [2..retries]"
    using assms(1) upto_rec1 [of 1 retries] by simp
  then show ?thesis
    using assms by (simp add: fetch_html_def)
qed

lemma fetch_html_negative_backoff:
  assumes "b < 0" and "- (9 * 10 ^ 9) \<le> b" and "1 < retries" and "transport 1 = RequestException e"
  shows "fetch_html u transport time_sleep retries b = (Inl (Propagated ValueError), [Get 1])"
  using assms(3,4) time_sleep_negative [OF assms(1,2)] by (rule fetch_html_first_wait_raises)

lemma fetch_html_backoff_too_long:
  assumes "10 ^ 10 \<le> b" and "1 < retries" and "transport 1 = RequestException e"
  shows "fetch_html u transport time_sleep retries b = (Inl (Propagated OverflowError), [Get 1])"
  using assms(2,3) time_sleep_too_long [OF assms(1)] by (rule fetch_html_first_wait_raises)

text \<open>
  So a base that is not negative, with a last wait of at most \<open>9 * 10^9\<close> seconds, has
  every wait of a call made.
\<close>

lemma time_sleep_waits:
  assumes "0 \<le> b" and "b * of_int (retries - 1) \<le> 9 * 10 ^ 9"
  shows "\<forall>n. 1 \<le> n \<and> n < retries \<longrightarrow> time_sleep (b * of_int n) = None"
proof (intro allI impI)
  fix n :: int
  assume n: "1 \<le> n \<and> n < retries"
  then have "real_of_int n \<le> of_int (retries - 1)" and p: "0 \<le> real_of_int n"
    by simp_all
  then have "b * of_int n \<le> b * of_int (retries - 1)"
    using assms(1) by (intro mult_left_mono)
  with assms(2) have "b * of_int n \<le> 9 * 10 ^ 9" by simp
  moreover have "0 \<le> b * of_int n" using assms(1) p by simp
  ultimately show "time_sleep (b * of_int n) = None"
    by (intro time_sleep_accepts)
qed

lemma time_sleep_small:
  assumes "1 \<le> n \<and> n < (3::int)" and "0 \<le> b" and "b \<le> 2"
  shows "time_sleep (b * of_int n) = None"
proof (rule time_sleep_accepts)
  have n: "0 \<le> real_of_int n" "real_of_int n \<le> 3"
    using assms(1) by simp_all
  show "0 \<le> b * of_int n"
    using assms(2) n(1) by simp
  have "b * of_int n \<le> 2 * 3"
    using assms(2,3) n by (intro mult_mono) simp_all
  then show "b * of_int n \<le> 9 * 10 ^ 9" by simp
qed

section \<open>Exhausting the attempts\<close>

text \<open>
  C5, as the code has it. Let every wait that the call asks for be made (\<open>time.sleep\<close>
  returns). If each of the \<open>retries\<close> attempts fails with a \<open>RequestException\<close>,
  \<open>fetch_html\<close> raises a \<open>FetchError\<close> whose message is "Failed to fetch", the URL,
  "after", the number \<open>retries\<close> and "attempts", and whose cause is the exception of
  the last attempt; the attempts made are the attempts 1 to \<open>retries\<close>, each once, and
  no other. If an attempt succeeds after the attempts before it failed, \<open>fetch_html\<close>
  returns the text of that response, and no attempt follows.
\<close>

theorem fetch_html_exhaustion:
  "((\<forall>n. 1 \<le> n \<and> n \<le> retries \<longrightarrow> transport n = RequestException (exc n))
      \<and> (\<forall>n. 1 \<le> n \<and> n < retries \<longrightarrow> sleep (b * of_int n) = None) \<longrightarrow>
      fst (fetch_html u transport sleep retries b)
        = Inl (FetchError (''Failed to fetch '' @ u @ '' after '' @ str_int retries @ '' attempts'')
                 (if 1 \<le> retries then Some (exc retries) else None))
      \<and> gets (snd (fetch_html u transport sleep retries b)) = [1..retries])
   \<and> (1 \<le> k \<and> k \<le> retries
        \<and> (\<forall>n. 1 \<le> n \<and> n < k \<longrightarrow> transport n = RequestException (exc n))
        \<and> (\<forall>n. 1 \<le> n \<and> n < k \<longrightarrow> sleep (b * of_int n) = None)
        \<and> transport k = Response body \<longrightarrow>
      fst (fetch_html u transport sleep retries b) = Inr body
      \<and> gets (snd (fetch_html u transport sleep retries b)) = [1..k])"
proof (intro conjI impI)
  assume a: "(\<forall>n. 1 \<le> n \<and> n \<le> retries \<longrightarrow> transport n = RequestException (exc n))
      \<and> (\<forall>n. 1 \<le> n \<and> n < retries \<longrightarrow> sleep (b * of_int n) = None)"
  note r = fetch_html_all_fail [OF conjunct1 [OF a] conjunct2 [OF a]]
  show "fst (fetch_html u transport sleep retries b)
        = Inl (FetchError (''Failed to fetch '' @ u @ '' after '' @ str_int retries @ '' attempts'')
                 (if 1 \<le> retries then Some (exc retries) else None))"
    unfolding r by (simp add: fetch_error_message_def)
  show "gets (snd (fetch_html u transport sleep retries b)) = [1..retries]"
    unfolding r by (simp add: gets_attempts)
next
  assume b: "1 \<le> k \<and> k \<le> retries
        \<and> (\<forall>n. 1 \<le> n \<and> n < k \<longrightarrow> transport n = RequestException (exc n))
        \<and> (\<forall>n. 1 \<le> n \<and> n < k \<longrightarrow> sleep (b * of_int n) = None)
        \<and> transport k = Response body"
  then have k: "1 \<le> k" "k \<le> retries" and t: "transport k = Response body"
    and bef: "\<forall>n. 1 \<le> n \<and> n < k \<longrightarrow> transport n = RequestException (exc n)"
    and w: "\<forall>n. 1 \<le> n \<and> n < k \<longrightarrow> sleep (b * of_int n) = None"
    by simp_all
  have ne: "\<forall>e. transport k \<noteq> RequestException e"
    by (simp add: t)
  note r = fetch_html_stop [OF k bef ne w]
  show "fst (fetch_html u transport sleep retries b) = Inr body"
    unfolding r by (simp add: t)
  show "gets (snd (fetch_html u transport sleep retries b)) = [1..k]"
    unfolding r using upto_rec2 [OF k(1)] by (simp add: gets_append gets_steps)
qed

lemma str_int_3: "str_int 3 = ''3''"
  by code_simp

theorem fetch_html_exhaustion_witness:
  "fst (fetch_html ''https://example.com/a'' always_fails time_sleep 3 1)
     = Inl (FetchError ''Failed to fetch https://example.com/a after 3 attempts''
              (Some (ConnectionError 3)))
   \<and> gets (snd (fetch_html ''https://example.com/a'' always_fails time_sleep 3 1)) = [1, 2, 3]
   \<and> fst (fetch_html ''https://example.com/a'' second_succeeds time_sleep 3 1) = Inr ''page''
   \<and> gets (snd (fetch_html ''https://example.com/a'' second_succeeds time_sleep 3 1)) = [1, 2]"
proof -
  have w: "time_sleep (1 * of_int n) = None" if "1 \<le> n \<and> n < (3::int)" for n
    using that by (rule time_sleep_small) simp_all
  have h1: "(\<forall>n. 1 \<le> n \<and> n \<le> (3::int) \<longrightarrow> always_fails n = RequestException (ConnectionError n))
      \<and> (\<forall>n. 1 \<le> n \<and> n < (3::int) \<longrightarrow> time_sleep (1 * of_int n) = None)"
    using w by (simp add: always_fails_def)
  note a = mp [OF conjunct1 [OF fetch_html_exhaustion
      [where retries = 3 and transport = always_fails and exc = ConnectionError
          and sleep = time_sleep and b = 1 and u = "''https://example.com/a''"]] h1]
  have h2: "1 \<le> (2::int) \<and> 2 \<le> (3::int)
      \<and> (\<forall>n. 1 \<le> n \<and> n < 2 \<longrightarrow> second_succeeds n = RequestException (ConnectionError n))
      \<and> (\<forall>n. 1 \<le> n \<and> n < (2::int) \<longrightarrow> time_sleep (1 * of_int n) = None)
      \<and> second_succeeds 2 = Response ''page''"
    using w by (simp add: second_succeeds_def)
  note b = mp [OF conjunct2 [OF fetch_html_exhaustion
      [where retries = 3 and k = 2 and exc = ConnectionError and body = "''page''"
          and transport = second_succeeds and sleep = time_sleep and b = 1
          and u = "''https://example.com/a''"]] h2]
  have u3: "[1..3::int] = [1, 2, 3]" and u2: "[1..2::int] = [1, 2]"
    by (simp_all add: upto_rec1)
  from a b show ?thesis
    by (simp add: str_int_3 u3 u2)
qed

text \<open>
  C5 as it is written fails when a wait cannot be made. With a base of \<open>-1\<close> and three
  attempts allowed, all of them failing, the wait after the first attempt is
  \<open>time.sleep(-1)\<close>, which raises \<open>ValueError\<close>: no \<open>FetchError\<close> is raised, and one
  attempt is made, not three.
\<close>

theorem fetch_html_exhaustion_counterexample:
  "fetch_html ''https://example.com/a'' always_fails time_sleep 3 (- 1)
     = (Inl (Propagated ValueError), [Get 1])"
  by (rule fetch_html_negative_backoff [where e = "ConnectionError 1"])
     (simp_all add: always_fails_def)

section \<open>Backoff\<close>

lemma sorted_delays:
  assumes "0 < (b::real)"
  shows "sorted_wrt (<) (map (\<lambda>n. b * of_int n) [i..j])"
proof -
  have "sorted_wrt (\<lambda>x y. b * of_int x < b * of_int y) [i..j]"
    using assms by (intro sorted_wrt_mono_rel [OF _ sorted_wrt_upto]) simp
  then show ?thesis by (simp add: sorted_wrt_map)
qed

text \<open>
  C6, as the code has it. Let attempt \<open>m\<close> be the last attempt of a call: the attempts
  before it failed with a \<open>RequestException\<close>, the waits after them were made
  (\<open>time.sleep\<close> returned), and \<open>m\<close> is the last attempt allowed or attempt \<open>m\<close> did not
  fail that way. Then every attempt \<open>n\<close> before \<open>m\<close> is followed by one wait of
  \<open>backoff_seconds * n\<close>, and then by attempt \<open>n + 1\<close>; nothing follows attempt \<open>m\<close>.
  The waits are linear in the attempt number, so for a positive base they increase
  strictly from one retry to the next.
\<close>

theorem fetch_html_backoff:
  assumes "1 \<le> m" and "m \<le> retries"
    and "\<forall>n. 1 \<le> n \<and> n < m \<longrightarrow> transport n = RequestException (exc n)"
    and "m < retries \<longrightarrow> (\<forall>e. transport m \<noteq> RequestException e)"
    and "\<forall>n. 1 \<le> n \<and> n < m \<longrightarrow> sleep (backoff_seconds * of_int n) = None"
  shows "snd (fetch_html u transport sleep retries backoff_seconds)
       = concat (map (\<lambda>n. [Get n, Sleep (backoff_seconds * of_int n)]) [1..m - 1]) @ [Get m]
    \<and> sleeps (snd (fetch_html u transport sleep retries backoff_seconds))
       = map (\<lambda>n. backoff_seconds * of_int n) [1..m - 1]
    \<and> (0 < backoff_seconds \<longrightarrow>
         sorted_wrt (<) (sleeps (snd (fetch_html u transport sleep retries backoff_seconds))))"
proof -
  have t: "snd (fetch_html u transport sleep retries backoff_seconds)
       = concat (map (\<lambda>n. [Get n, Sleep (backoff_seconds * of_int n)]) [1..m - 1]) @ [Get m]"
    using assms by (rule fetch_html_trace)
  have s: "sleeps (snd (fetch_html u transport sleep retries backoff_seconds))
       = map (\<lambda>n. backoff_seconds * of_int n) [1..m - 1]"
    unfolding t by (simp add: sleeps_append sleeps_steps)
  have "sorted_wrt (<) (sleeps (snd (fetch_html u transport sleep retries backoff_seconds)))"
    if "0 < backoff_seconds"
    unfolding s using that by (rule sorted_delays)
  with t s show ?thesis by blast
qed

theorem fetch_html_backoff_witness:
  "snd (fetch_html ''https://example.com/a'' always_fails time_sleep 3 (3/2))
     = [Get 1, Sleep (3/2), Get 2, Sleep 3, Get 3]
   \<and> sleeps (snd (fetch_html ''https://example.com/a'' always_fails time_sleep 3 (3/2)))
     = [3/2, 3]
   \<and> sorted_wrt (<) (sleeps (snd (fetch_html ''https://example.com/a'' always_fails time_sleep 3 (3/2))))
   \<and> snd (fetch_html ''https://example.com/a'' second_succeeds time_sleep 3 (3/2))
     = [Get 1, Sleep (3/2), Get 2]"
proof -
  have w: "time_sleep (3/2 * of_int n) = None" if "1 \<le> n \<and> n < (3::int)" for n
    using that by (rule time_sleep_small) simp_all
  have h1: "(1::int) \<le> 3" and h2: "(3::int) \<le> 3" by simp_all
  have h3: "\<forall>n. 1 \<le> n \<and> n < (3::int) \<longrightarrow> always_fails n = RequestException (ConnectionError n)"
    by (simp add: always_fails_def)
  have h4: "(3::int) < 3 \<longrightarrow> (\<forall>e. always_fails 3 \<noteq> RequestException e)"
    by simp
  have h5: "\<forall>n. 1 \<le> n \<and> n < (3::int) \<longrightarrow> time_sleep (3/2 * of_int n) = None"
    using w by simp
  note t = fetch_html_backoff [OF h1 h2 h3 h4 h5, where u = "''https://example.com/a''"]
  have g1: "(1::int) \<le> 2" and g2: "(2::int) \<le> 3" by simp_all
  have g3: "\<forall>n. 1 \<le> n \<and> n < (2::int) \<longrightarrow> second_succeeds n = RequestException (ConnectionError n)"
    by (simp add: second_succeeds_def)
  have g4: "(2::int) < 3 \<longrightarrow> (\<forall>e. second_succeeds 2 \<noteq> RequestException e)"
    by (simp add: second_succeeds_def)
  have g5: "\<forall>n. 1 \<le> n \<and> n < (2::int) \<longrightarrow> time_sleep (3/2 * of_int n) = None"
    using w by simp
  note s = conjunct1 [OF fetch_html_backoff [OF g1 g2 g3 g4 g5, where u = "''https://example.com/a''"]]
  have u: "[1..3 - 1::int] = [1, 2]" and v: "[1..2 - 1::int] = [1]"
    by (simp_all add: upto_rec1)
  from t s show ?thesis
    unfolding u v by simp
qed

text \<open>
  C6 as it is written fails when a wait cannot be made. With two attempts allowed and
  the first one failing, the wait due after attempt 1 is not made and attempt 2 does
  not follow: with a base of \<open>-1/2\<close>, \<open>time.sleep(-0.5)\<close> raises \<open>ValueError\<close>; with a
  base of \<open>10^10\<close>, the length does not fit the clock and \<open>time.sleep\<close> raises
  \<open>OverflowError\<close>.
\<close>

theorem fetch_html_backoff_counterexample:
  "fetch_html ''https://example.com/a'' always_fails time_sleep 2 (- (1/2))
     = (Inl (Propagated ValueError), [Get 1])
   \<and> fetch_html ''https://example.com/a'' always_fails time_sleep 2 (10 ^ 10)
     = (Inl (Propagated OverflowError), [Get 1])"
proof (rule conjI)
  show "fetch_html ''https://example.com/a'' always_fails time_sleep 2 (- (1/2))
     = (Inl (Propagated ValueError), [Get 1])"
    by (rule fetch_html_negative_backoff [where e = "ConnectionError 1"])
       (simp_all add: always_fails_def)
  show "fetch_html ''https://example.com/a'' always_fails time_sleep 2 (10 ^ 10)
     = (Inl (Propagated OverflowError), [Get 1])"
    by (rule fetch_html_backoff_too_long [where e = "ConnectionError 1"])
       (simp_all add: always_fails_def)
qed

end
